theory Spec2Isabelle
  imports Main
begin

section \<open>Data model\<close>

text \<open>
  The leaderboard generator scores three kinds of activity. The scoring table
  \<open>POINTS\<close> is a constant of the script. JavaScript numbers are modelled as
  integers: every number the generator adds is a small whole number.
\<close>

datatype ActivityType = PR_opened | PR_merged | Issue_opened

definition POINTS_PR_OPENED :: int where "POINTS_PR_OPENED = 2"
definition POINTS_PR_MERGED :: int where "POINTS_PR_MERGED = 5"
definition POINTS_ISSUE_OPENED :: int where "POINTS_ISSUE_OPENED = 1"

text \<open>One bucket of \<open>activity_breakdown\<close>, one element of \<open>daily_activity\<close>, one
  element of \<open>raw_activities\<close>, and the \<open>UserEntry\<close> holding them.\<close>

record bucket =
  count :: nat
  points :: int

record daily =
  d_date :: string
  d_count :: nat
  d_points :: int

record raw_activity =
  a_type :: ActivityType
  occured_at :: string
  a_title :: "string option"
  a_link :: "string option"
  a_points :: int

record UserEntry =
  username :: string
  name :: "string option"
  avatar_url :: "string option"
  role :: "string option"
  total_points :: int
  activity_breakdown :: "(ActivityType \<times> bucket) list"
  daily_activity :: "daily list"
  raw_activities :: "raw_activity list"

text \<open>A search result. Every result has an actor; the login and the account kind
  of the actor may be absent.\<close>

record GitHubUser =
  u_login :: "string option"
  u_name :: "string option"
  u_avatar_url :: "string option"
  u_type :: "string option"

record GitHubItem =
  it_user :: GitHubUser
  created_at :: string
  closed_at :: string
  it_title :: "string option"
  html_url :: "string option"

section \<open>Strings\<close>

text \<open>\<open>s.split("T")[0]\<close>: the part of \<open>s\<close> before the first \<open>T\<close>, all of \<open>s\<close> when
  there is none.\<close>

definition dayOf :: "string \<Rightarrow> string" where
  "dayOf s = takeWhile (\<lambda>c. c \<noteq> CHR ''T'') s"

definition endsWith :: "string \<Rightarrow> string \<Rightarrow> bool" where
  "endsWith s suf = (length suf \<le> length s \<and> drop (length s - length suf) s = suf)"

text \<open>The white space of \<open>\s\<close> and of \<open>trim\<close>, within ASCII.\<close>

definition isSpace :: "char \<Rightarrow> bool" where
  "isSpace c = (c = CHR '' '' \<or> c = CHR 0x09 \<or> c = CHR 0x0A \<or> c = CHR 0x0B
     \<or> c = CHR 0x0C \<or> c = CHR 0x0D)"

fun removeBrackets :: "string \<Rightarrow> string" where
  "removeBrackets [] = []"
| "removeBrackets (c # cs) =
     (if c = CHR ''['' \<or> c = CHR '']'' then removeBrackets cs else c # removeBrackets cs)"

fun replaceColons :: "string \<Rightarrow> string" where
  "replaceColons [] = []"
| "replaceColons (c # cs) =
     (if c = CHR '':'' then '' - '' @ replaceColons cs else c # replaceColons cs)"

text \<open>\<open>replace(/\s+/g, " ")\<close>: every run of white space becomes one space. The flag
  says that the character before belonged to a run.\<close>

fun collapseFrom :: "bool \<Rightarrow> string \<Rightarrow> string" where
  "collapseFrom inRun [] = []"
| "collapseFrom inRun (c # cs) =
     (if isSpace c then (if inRun then collapseFrom True cs else CHR '' '' # collapseFrom True cs)
      else c # collapseFrom False cs)"

definition collapseSpaces :: "string \<Rightarrow> string" where
  "collapseSpaces s = collapseFrom False s"

definition trim :: "string \<Rightarrow> string" where
  "trim s = rev (dropWhile isSpace (rev (dropWhile isSpace s)))"

definition sanitizeTitle :: "string option \<Rightarrow> string option" where
  "sanitizeTitle title =
     (case title of
        None \<Rightarrow> None
      | Some t \<Rightarrow>
          if t = [] then None
          else Some (trim (collapseSpaces (replaceColons (removeBrackets t)))))"

section \<open>The aggregator of the year generator\<close>

text \<open>
  \<open>activity_breakdown[type] ??= {count: 0, points: 0}\<close> followed by the two
  increments. The object keeps its keys, which are no array indices, in
  insertion order.
\<close>

fun bump :: "'k \<Rightarrow> int \<Rightarrow> ('k \<times> bucket) list \<Rightarrow> ('k \<times> bucket) list" where
  "bump k p [] = [(k, \<lparr>count = 1, points = p\<rparr>)]"
| "bump k p ((k', b) # rest) =
     (if k' = k then (k', b\<lparr>count := count b + 1, points := points b + p\<rparr>) # rest
      else (k', b) # bump k p rest)"

text \<open>
  \<open>daily_activity.find((d) => d.date === day)\<close>: the first element of that day is
  incremented; when there is none, a new element is pushed at the end.
\<close>

fun bumpDay :: "string \<Rightarrow> int \<Rightarrow> daily list \<Rightarrow> daily list" where
  "bumpDay day p [] = [\<lparr>d_date = day, d_count = 1, d_points = p\<rparr>]"
| "bumpDay day p (d # rest) =
     (if d_date d = day then d\<lparr>d_count := d_count d + 1, d_points := d_points d + p\<rparr> # rest
      else d # bumpDay day p rest)"

definition addActivity ::
  "UserEntry \<Rightarrow> ActivityType \<Rightarrow> string \<Rightarrow> int \<Rightarrow> string option \<Rightarrow> string option \<Rightarrow> UserEntry"
where
  "addActivity entry ty date pts title link =
     (let day = dayOf date in
      entry\<lparr>total_points := total_points entry + pts,
            activity_breakdown := bump ty pts (activity_breakdown entry),
            daily_activity := bumpDay day pts (daily_activity entry),
            raw_activities := raw_activities entry @
              [\<lparr>a_type = ty, occured_at = date, a_title = sanitizeTitle title,
                a_link = link, a_points = pts\<rparr>]\<rparr>)"

text \<open>\<open>isBotUser\<close>: an absent or empty login, a non-empty account kind other than
  \<open>User\<close>, or a login ending in \<open>[bot]\<close>.\<close>

definition truthy :: "string option \<Rightarrow> bool" where
  "truthy s = (case s of None \<Rightarrow> False | Some t \<Rightarrow> t \<noteq> [])"

definition isBotUser :: "GitHubUser \<Rightarrow> bool" where
  "isBotUser u =
     (if \<not> truthy (u_login u) then True
      else if truthy (u_type u) \<and> u_type u \<noteq> Some ''User'' then True
      else endsWith (the (u_login u)) ''[bot]'')"

text \<open>
  The \<open>Map\<close> of users keeps its keys in insertion order. \<open>ensureUser\<close> adds a
  fresh entry for an unknown login and leaves a known one as it is.
\<close>

type_synonym users = "(string \<times> UserEntry) list"

definition newEntry :: "string \<Rightarrow> GitHubUser \<Rightarrow> UserEntry" where
  "newEntry l u =
     \<lparr>username = l, name = u_name u, avatar_url = u_avatar_url u,
      role = Some ''Contributor'', total_points = 0, activity_breakdown = [],
      daily_activity = [], raw_activities = []\<rparr>"

definition ensureUser :: "users \<Rightarrow> string \<Rightarrow> GitHubUser \<Rightarrow> users" where
  "ensureUser m l u = (if l \<in> fst ` set m then m else m @ [(l, newEntry l u)])"

fun modify :: "string \<Rightarrow> (UserEntry \<Rightarrow> UserEntry) \<Rightarrow> users \<Rightarrow> users" where
  "modify l f [] = []"
| "modify l f ((k, e) # rest) = (if k = l then (k, f e) # rest else (k, e) # modify l f rest)"

text \<open>One iteration of the three loops of \<open>generateYear\<close>: a bot is skipped, any
  other actor gets the activity added to its entry.\<close>

definition foldItem ::
  "ActivityType \<Rightarrow> (GitHubItem \<Rightarrow> string) \<Rightarrow> int \<Rightarrow> users \<Rightarrow> GitHubItem \<Rightarrow> users"
where
  "foldItem ty when pts m it =
     (if isBotUser (it_user it) then m
      else
        (let l = the (u_login (it_user it)) in
         modify l (\<lambda>e. addActivity e ty (when it) pts (it_title it) (html_url it))
           (ensureUser m l (it_user it))))"

definition aggregate :: "GitHubItem list \<Rightarrow> GitHubItem list \<Rightarrow> GitHubItem list \<Rightarrow> users" where
  "aggregate prs merged issues =
     foldl (foldItem Issue_opened created_at POINTS_ISSUE_OPENED)
       (foldl (foldItem PR_merged closed_at POINTS_PR_MERGED)
          (foldl (foldItem PR_opened created_at POINTS_PR_OPENED) [] prs)
          merged)
       issues"

text \<open>The entries of \<open>year.json\<close>: the users with points, highest total first.
  \<open>Array.prototype.sort\<close> is stable, as \<open>sort_key\<close> is.\<close>

definition yearEntries :: "GitHubItem list \<Rightarrow> GitHubItem list \<Rightarrow> GitHubItem list \<Rightarrow> UserEntry list" where
  "yearEntries prs merged issues =
     sort_key (\<lambda>u. - total_points u)
       (filter (\<lambda>u. total_points u > 0) (map snd (aggregate prs merged issues)))"

section \<open>Derived periods\<close>

text \<open>
  \<open>derivePeriod\<close> keeps, of every entry of the year document, the activities
  that are not older than the cutoff and rebuilds the totals from them. The
  parser of \<open>new Date(string)\<close> is a parameter: it gives the milliseconds since
  the epoch, or nothing for a string that is no date; comparing such an invalid
  date with the cutoff is false.
\<close>

record period_activity =
  pa_type :: ActivityType
  pa_title :: "string option"
  pa_occured_at :: string
  pa_link :: "string option"
  pa_points :: int
  contributor :: string
  contributor_name :: "string option"
  contributor_avatar_url :: "string option"

record PeriodEntry =
  p_username :: string
  p_name :: "string option"
  p_avatar_url :: "string option"
  p_role :: "string option"
  p_total_points :: int
  p_activity_breakdown :: "(ActivityType \<times> bucket) list"
  p_daily_activity :: "daily list"
  activities :: "period_activity list"

definition inWindow :: "(string \<Rightarrow> int option) \<Rightarrow> int \<Rightarrow> raw_activity \<Rightarrow> bool" where
  "inWindow parse cutoff a =
     (case parse (occured_at a) of None \<Rightarrow> False | Some t \<Rightarrow> t \<ge> cutoff)"

text \<open>\<open>daily[day] ??= {date: day, count: 0, points: 0}\<close> followed by the two
  increments, on an object keyed by the day. \<open>Object.values\<close> lists the values in
  insertion order for keys such as \<open>2025-01-10\<close>.\<close>

fun bumpDaily :: "string \<Rightarrow> int \<Rightarrow> (string \<times> daily) list \<Rightarrow> (string \<times> daily) list" where
  "bumpDaily day p [] = [(day, \<lparr>d_date = day, d_count = 1, d_points = p\<rparr>)]"
| "bumpDaily day p ((k, d) # rest) =
     (if k = day then (k, d\<lparr>d_count := d_count d + 1, d_points := d_points d + p\<rparr>) # rest
      else (k, d) # bumpDaily day p rest)"

text \<open>The body of the loop over \<open>acts\<close>, on the three variables \<open>total\<close>,
  \<open>breakdown\<close> and \<open>daily\<close>.\<close>

definition rebuildStep ::
  "int \<times> (ActivityType \<times> bucket) list \<times> (string \<times> daily) list \<Rightarrow> raw_activity \<Rightarrow>
   int \<times> (ActivityType \<times> bucket) list \<times> (string \<times> daily) list"
where
  "rebuildStep st a =
     (case st of (tot, breakdown, dly) \<Rightarrow>
        (tot + a_points a,
         bump (a_type a) (a_points a) breakdown,
         bumpDaily (dayOf (occured_at a)) (a_points a) dly))"

definition rebuild ::
  "raw_activity list \<Rightarrow> int \<times> (ActivityType \<times> bucket) list \<times> (string \<times> daily) list"
where
  "rebuild acts = foldl rebuildStep (0, [], []) acts"

definition toPeriodActivity :: "UserEntry \<Rightarrow> raw_activity \<Rightarrow> period_activity" where
  "toPeriodActivity entry a =
     \<lparr>pa_type = a_type a, pa_title = a_title a, pa_occured_at = occured_at a,
      pa_link = a_link a, pa_points = a_points a, contributor = username entry,
      contributor_name = name entry, contributor_avatar_url = avatar_url entry\<rparr>"

definition deriveEntry :: "(string \<Rightarrow> int option) \<Rightarrow> int \<Rightarrow> UserEntry \<Rightarrow> PeriodEntry option" where
  "deriveEntry parse cutoff entry =
     (let acts = filter (inWindow parse cutoff) (raw_activities entry) in
      if length acts = 0 then None
      else
        (case rebuild acts of (tot, breakdown, dly) \<Rightarrow>
           Some \<lparr>p_username = username entry, p_name = name entry,
                 p_avatar_url = avatar_url entry, p_role = role entry,
                 p_total_points = tot, p_activity_breakdown = breakdown,
                 p_daily_activity = map snd dly,
                 activities = map (toPeriodActivity entry) acts\<rparr>))"

definition derivePeriod :: "(string \<Rightarrow> int option) \<Rightarrow> int \<Rightarrow> UserEntry list \<Rightarrow> PeriodEntry list" where
  "derivePeriod parse cutoff entries =
     sort_key (\<lambda>e. - p_total_points e) (List.map_filter (deriveEntry parse cutoff) entries)"

section \<open>Sums over buckets and activities\<close>

definition breakdownPoints :: "('k \<times> bucket) list \<Rightarrow> int" where
  "breakdownPoints bd = sum_list (map (\<lambda>kb. points (snd kb)) bd)"

definition rawPoints :: "raw_activity list \<Rightarrow> int" where
  "rawPoints acts = sum_list (map a_points acts)"

definition consistent :: "UserEntry \<Rightarrow> bool" where
  "consistent e =
     (total_points e = breakdownPoints (activity_breakdown e) \<and>
      total_points e = rawPoints (raw_activities e))"

definition periodPoints :: "period_activity list \<Rightarrow> int" where
  "periodPoints acts = sum_list (map pa_points acts)"



section \<open>A small run\<close>

text \<open>
  Three search results: \<open>alice\<close> opens a pull request, the pull request is
  merged, and a bot account opens an issue. \<open>sampleParse\<close> agrees with
  \<open>Date\<close> on the time stamps of these results.
\<close>

definition alice :: GitHubUser where
  "alice = \<lparr>u_login = Some ''alice'', u_name = Some ''Alice'', u_avatar_url = None,
     u_type = Some ''User''\<rparr>"

definition botUser :: GitHubUser where
  "botUser = \<lparr>u_login = Some ''bot[bot]'', u_name = None, u_avatar_url = None,
     u_type = Some ''Bot''\<rparr>"

definition pr1 :: GitHubItem where
  "pr1 = \<lparr>it_user = alice, created_at = ''2025-01-10T10:00:00Z'',
     closed_at = ''2025-01-12T09:00:00Z'', it_title = Some ''[Fix] parser: crash'',
     html_url = Some ''https://github.com/CircuitVerse/cv/pull/1''\<rparr>"

definition issue2 :: GitHubItem where
  "issue2 = \<lparr>it_user = botUser, created_at = ''2025-01-12T12:00:00Z'',
     closed_at = [], it_title = Some ''Bump'',
     html_url = Some ''https://github.com/CircuitVerse/cv/issues/2''\<rparr>"

definition sampleParse :: "string \<Rightarrow> int option" where
  "sampleParse s =
     (if s = ''2025-01-10T10:00:00Z'' then Some 1736503200000
      else if s = ''2025-01-12T09:00:00Z'' then Some 1736672400000
      else if s = ''2025-01-12T12:00:00Z'' then Some 1736683200000
      else None)"


section \<open>The per-period generator\<close>

text \<open>
  The script \<open>scripts/generateLeaderboard.ts\<close> queries every period on its own. Its
  entries have no activity log, and the keys of the breakdown are plain strings.
  Its \<open>addActivity\<close> returns at once for an absent or empty date and pushes a new
  \<open>daily_activity\<close> element for every event.
\<close>

record PeriodUserEntry =
  g_username :: string
  g_name :: "string option"
  g_avatar_url :: "string option"
  g_role :: "string option"
  g_total_points :: int
  g_activity_breakdown :: "(string \<times> bucket) list"
  g_daily_activity :: "daily list"

definition isBotUser_period :: "GitHubUser \<Rightarrow> bool" where
  "isBotUser_period u =
     (if truthy (u_type u) \<and> u_type u \<noteq> Some ''User'' then True
      else if \<not> truthy (u_login u) then True
      else endsWith (the (u_login u)) ''[bot]'')"

definition newEntry_period :: "string \<Rightarrow> GitHubUser \<Rightarrow> PeriodUserEntry" where
  "newEntry_period l u =
     \<lparr>g_username = l, g_name = u_name u, g_avatar_url = u_avatar_url u,
      g_role = Some ''Contributor'', g_total_points = 0, g_activity_breakdown = [],
      g_daily_activity = []\<rparr>"

definition ensureUser_period ::
  "(string \<times> PeriodUserEntry) list \<Rightarrow> string \<Rightarrow> GitHubUser \<Rightarrow> (string \<times> PeriodUserEntry) list"
where
  "ensureUser_period m l u = (if l \<in> fst ` set m then m else m @ [(l, newEntry_period l u)])"

definition addActivity_period ::
  "PeriodUserEntry \<Rightarrow> string \<Rightarrow> string option \<Rightarrow> int \<Rightarrow> PeriodUserEntry"
where
  "addActivity_period entry ty date pts =
     (if \<not> truthy date then entry
      else
        entry\<lparr>g_total_points := g_total_points entry + pts,
              g_activity_breakdown := bump ty pts (g_activity_breakdown entry),
              g_daily_activity := g_daily_activity entry @
                [\<lparr>d_date = dayOf (the date), d_count = 1, d_points = pts\<rparr>]\<rparr>)"

fun modify_period ::
  "string \<Rightarrow> (PeriodUserEntry \<Rightarrow> PeriodUserEntry) \<Rightarrow> (string \<times> PeriodUserEntry) list \<Rightarrow>
   (string \<times> PeriodUserEntry) list"
where
  "modify_period l f [] = []"
| "modify_period l f ((k, e) # rest) =
     (if k = l then (k, f e) # rest else (k, e) # modify_period l f rest)"

definition foldItem_period ::
  "string \<Rightarrow> (GitHubItem \<Rightarrow> string option) \<Rightarrow> int \<Rightarrow> (string \<times> PeriodUserEntry) list \<Rightarrow>
   GitHubItem \<Rightarrow> (string \<times> PeriodUserEntry) list"
where
  "foldItem_period ty when pts m it =
     (if isBotUser_period (it_user it) then m
      else
        (let l = the (u_login (it_user it)) in
         modify_period l (\<lambda>e. addActivity_period e ty (when it) pts)
           (ensureUser_period m l (it_user it))))"

text \<open>The entries of one period document of the script, from the three pages
  it fetched.\<close>

definition generate_entries ::
  "GitHubItem list \<Rightarrow> GitHubItem list \<Rightarrow> GitHubItem list \<Rightarrow> PeriodUserEntry list"
where
  "generate_entries prs merged issues =
     sort_key (\<lambda>u. - g_total_points u)
       (filter (\<lambda>u. g_total_points u > 0)
          (map snd
             (foldl (foldItem_period ''Issue opened'' (\<lambda>it. Some (created_at it)) POINTS_ISSUE_OPENED)
                (foldl (foldItem_period ''PR merged'' (\<lambda>it. Some (closed_at it)) POINTS_PR_MERGED)
                   (foldl (foldItem_period ''PR opened'' (\<lambda>it. Some (created_at it)) POINTS_PR_OPENED)
                      [] prs)
                   merged)
                issues)))"

definition pr3 :: GitHubItem where
  "pr3 = \<lparr>it_user = alice, created_at = ''2025-01-10T17:30:00Z'',
     closed_at = [], it_title = Some ''Add tests'',
     html_url = Some ''https://github.com/CircuitVerse/cv/pull/3''\<rparr>"

section \<open>Freshness of a cached document\<close>

text \<open>
  Modelled from the spec: the freshness classifier of the cache controller. The
  route handler that serves the cached documents is not among the sources; the
  classifier follows section 4.5 of the specification: a record of age below the
  TTL is fresh, one of age from the TTL up to the stale ceiling is stale, and an
  older one, or no record at all, is expired.
\<close>

datatype freshness = Fresh | Stale | Expired

record CacheRecord =
  builtAtEpochMillis :: int
  serializedPeriodDocument :: string

definition age :: "int \<Rightarrow> CacheRecord \<Rightarrow> int" where
  "age now r = now - builtAtEpochMillis r"

definition classify :: "int \<Rightarrow> int \<Rightarrow> int \<Rightarrow> CacheRecord option \<Rightarrow> freshness" where
  "classify ttl ceiling now rec =
     (case rec of
        None \<Rightarrow> Expired
      | Some r \<Rightarrow>
          if age now r < ttl then Fresh
          else if age now r < ceiling then Stale
          else Expired)"

section \<open>The event fetcher\<close>

text \<open>
  A \<open>Date\<close> is its number of milliseconds since the epoch. \<open>iso d\<close> stands for the
  string \<open>YYYY-MM-DD\<close> of \<open>d.toISOString().split("T")[0]\<close>: it is the number of the
  UTC day of \<open>d\<close>, which orders and identifies calendar dates as the strings do.
  \<open>setDate(getDate() + n)\<close> moves a date by \<open>n\<close> days of the local calendar; the
  local time zone is taken to be UTC, where every day has the same length.
\<close>

type_synonym date = int

definition msPerDay :: int where "msPerDay = 86400000"

definition iso :: "date \<Rightarrow> int" where
  "iso d = d div msPerDay"

definition addDays :: "date \<Rightarrow> int \<Rightarrow> date" where
  "addDays d n = d + n * msPerDay"

definition daysAgo :: "date \<Rightarrow> int \<Rightarrow> date" where
  "daysAgo today n = addDays today (- n)"

text \<open>
  The URL of a search request is determined by the query, the two dates of the
  \<open>created:\<close> range and the page; a request is recorded as these four. A response
  has a status, a text and, when it parses as JSON, an optional \<open>items\<close> field.
  \<open>ok\<close> is the success range of the Fetch API.
\<close>

record request =
  rq_query :: string
  rq_from :: int
  rq_to :: int
  rq_page :: nat

record response =
  status :: nat
  body :: string
  items :: "GitHubItem list option"

definition ok :: "response \<Rightarrow> bool" where
  "ok res = (200 \<le> status res \<and> status res \<le> 299)"

text \<open>
  What the fetcher does to the outside world, in order: the requests it sends
  and the delays it waits; the lines it logs are left out. Every request is
  taken to get a response. A call ends by returning, by throwing
  \<open>Error(`GitHub API ${status}: ${text}`)\<close>, or not at all; the loops below take
  a bound on their iterations and report \<open>Diverged\<close> when it is used up.
\<close>

datatype effect = Fetch request | Sleep nat

datatype error = GitHubAPIError nat string

datatype 'a outcome = Returned 'a | Threw error | Diverged

definition ghSearch ::
  "(request \<Rightarrow> response) \<Rightarrow> request \<Rightarrow> effect list \<times> GitHubItem list option outcome"
where
  "ghSearch srv rq =
     (let res = srv rq in
      if \<not> ok res then ([Fetch rq], Threw (GitHubAPIError (status res) (body res)))
      else ([Fetch rq, Sleep 2500], Returned (items res)))"

text \<open>The loop \<open>while (true)\<close> over the pages of one range. It appends every page to
  \<open>all\<close> and stops after a page that has no \<open>items\<close> or fewer than 100.\<close>

fun pageLoop ::
  "nat \<Rightarrow> (request \<Rightarrow> response) \<Rightarrow> string \<Rightarrow> int \<Rightarrow> int \<Rightarrow> nat \<Rightarrow> GitHubItem list \<Rightarrow>
   effect list \<times> GitHubItem list outcome"
where
  "pageLoop 0 srv q dfrom dto page all = ([], Diverged)"
| "pageLoop (Suc n) srv q dfrom dto page all =
     (case ghSearch srv \<lparr>rq_query = q, rq_from = dfrom, rq_to = dto, rq_page = page\<rparr> of
        (tr, Returned its) \<Rightarrow>
          (let all' = all @ (case its of None \<Rightarrow> [] | Some xs \<Rightarrow> xs) in
           if its = None \<or> length (the its) < 100 then (tr, Returned all')
           else (case pageLoop n srv q dfrom dto (page + 1) all' of (tr', r) \<Rightarrow> (tr @ tr', r)))
      | (tr, Threw e) \<Rightarrow> (tr, Threw e)
      | (tr, Diverged) \<Rightarrow> (tr, Diverged))"

text \<open>The loop \<open>while (cursor < end)\<close> over the date ranges.\<close>

fun chunkLoop ::
  "nat \<Rightarrow> (request \<Rightarrow> response) \<Rightarrow> string \<Rightarrow> date \<Rightarrow> date \<Rightarrow> int \<Rightarrow> GitHubItem list \<Rightarrow>
   effect list \<times> GitHubItem list outcome"
where
  "chunkLoop 0 srv q cursor end step all =
     (if cursor < end then ([], Diverged) else ([], Returned all))"
| "chunkLoop (Suc n) srv q cursor end step all =
     (if cursor < end then
        (let from = iso cursor;
             next = addDays cursor step;
             to = (if next > end then end else next)
         in case pageLoop (Suc n) srv q from (iso to) 1 all of
              (tr, Returned all') \<Rightarrow>
                (case chunkLoop n srv q to end step all' of (tr', r) \<Rightarrow> (tr @ tr', r))
            | (tr, Threw e) \<Rightarrow> (tr, Threw e)
            | (tr, Diverged) \<Rightarrow> (tr, Diverged))
      else ([], Returned all))"

definition searchByDateChunks ::
  "nat \<Rightarrow> (request \<Rightarrow> response) \<Rightarrow> string \<Rightarrow> date \<Rightarrow> date \<Rightarrow> int \<Rightarrow>
   effect list \<times> GitHubItem list outcome"
where
  "searchByDateChunks n srv baseQuery start end stepDays =
     chunkLoop n srv baseQuery start end stepDays []"

text \<open>The date ranges a run has queried, in order: the range of every first
  page.\<close>

fun queriedRanges :: "effect list \<Rightarrow> (int \<times> int) list" where
  "queriedRanges [] = []"
| "queriedRanges (Fetch rq # tr) =
     (if rq_page rq = 1 then (rq_from rq, rq_to rq) # queriedRanges tr else queriedRanges tr)"
| "queriedRanges (Sleep ms # tr) = queriedRanges tr"

text \<open>A trace is throttled when every request that got a success status is
  followed at once by the delay of 2500 ms, and a request that got another
  status is the last thing the trace holds.\<close>

fun throttled :: "(request \<Rightarrow> response) \<Rightarrow> effect list \<Rightarrow> bool" where
  "throttled srv [] = True"
| "throttled srv [Fetch rq] = (\<not> ok (srv rq))"
| "throttled srv (Fetch rq # Sleep ms # tr) = (ok (srv rq) \<and> ms = 2500 \<and> throttled srv tr)"
| "throttled srv tr = False"

text \<open>The reading of "a delay after every call": every request of the trace is
  followed at once by the delay of 2500 ms.\<close>

fun alwaysDelayed :: "effect list \<Rightarrow> bool" where
  "alwaysDelayed [] = True"
| "alwaysDelayed (Fetch rq # Sleep ms # tr) = (ms = 2500 \<and> alwaysDelayed tr)"
| "alwaysDelayed tr = False"

text \<open>A trace of successful calls only.\<close>

fun okTrace :: "(request \<Rightarrow> response) \<Rightarrow> effect list \<Rightarrow> bool" where
  "okTrace srv [] = True"
| "okTrace srv (Fetch rq # Sleep ms # tr) = (ok (srv rq) \<and> ms = 2500 \<and> okTrace srv tr)"
| "okTrace srv tr = False"

text \<open>Ranges that follow one another from \<open>a\<close> to \<open>b\<close>: each begins where the one
  before it ends.\<close>

fun chain :: "int \<Rightarrow> (int \<times> int) list \<Rightarrow> int \<Rightarrow> bool" where
  "chain a [] b = (a = b)"
| "chain a ((f, t) # rs) b = (f = a \<and> f \<le> t \<and> chain t rs b)"

text \<open>The number of ranges, read half-open, that hold the day \<open>d\<close>.\<close>

definition rangesHolding :: "int \<Rightarrow> (int \<times> int) list \<Rightarrow> nat" where
  "rangesHolding d rs = length (filter (\<lambda>r. fst r \<le> d \<and> d < snd r) rs)"

section \<open>The year generator\<close>

text \<open>
  \<open>generateYear\<close> awaits the three searches one after the other; the first that
  throws ends the run. The clock is read several times: \<open>clock k\<close> is its
  \<open>k\<close>-th reading. The result is the entries written to \<open>year.json\<close> and to the
  files of the derived periods.
\<close>

definition andThen ::
  "effect list \<times> 'a outcome \<Rightarrow> ('a \<Rightarrow> effect list \<times> 'b outcome) \<Rightarrow> effect list \<times> 'b outcome"
where
  "andThen m f =
     (case m of
        (tr, Returned x) \<Rightarrow> (case f x of (tr', r) \<Rightarrow> (tr @ tr', r))
      | (tr, Threw e) \<Rightarrow> (tr, Threw e)
      | (tr, Diverged) \<Rightarrow> (tr, Diverged))"

record leaderboard =
  yearDoc :: "UserEntry list"
  periodDocs :: "(string \<times> PeriodEntry list) list"

definition generateYear ::
  "nat \<Rightarrow> (request \<Rightarrow> response) \<Rightarrow> (string \<Rightarrow> int option) \<Rightarrow> (nat \<Rightarrow> date) \<Rightarrow>
   effect list \<times> leaderboard outcome"
where
  "generateYear n srv parse clock =
     (let since = daysAgo (clock 0) 365; now = clock 1 in
      andThen (searchByDateChunks n srv ''org:CircuitVerse+is:pr'' since now 30) (\<lambda>prs.
      andThen (searchByDateChunks n srv ''org:CircuitVerse+is:pr+is:merged'' since now 30) (\<lambda>merged.
      andThen (searchByDateChunks n srv ''org:CircuitVerse+is:issue'' since now 30) (\<lambda>issues.
        (let entries = yearEntries prs merged issues in
         ([], Returned
            \<lparr>yearDoc = entries,
             periodDocs =
               [(''week'', derivePeriod parse (daysAgo (clock 2) 7) entries),
                (''2week'', derivePeriod parse (daysAgo (clock 3) 14) entries),
                (''3week'', derivePeriod parse (daysAgo (clock 4) 21) entries),
                (''month'', derivePeriod parse (daysAgo (clock 5) 30) entries),
                (''2month'', derivePeriod parse (daysAgo (clock 6) 60) entries)]\<rparr>))))))"

text \<open>Two servers for the examples: one answers every request with a short page,
  the other answers the first page of a range with a full page and every later
  page with status 403.\<close>

definition quietServer :: "request \<Rightarrow> response" where
  "quietServer rq = \<lparr>status = 200, body = [], items = Some [pr1]\<rparr>"

definition limitedServer :: "request \<Rightarrow> response" where
  "limitedServer rq =
     (if rq_page rq = 1 then \<lparr>status = 200, body = [], items = Some (replicate 100 pr1)\<rparr>
      else \<lparr>status = 403, body = ''rate limit exceeded'', items = None\<rparr>)"

text \<open>The items a response adds to \<open>all\<close>, and the test that ends the paging.\<close>

definition pageItems :: "response \<Rightarrow> GitHubItem list" where
  "pageItems res = (case items res of None \<Rightarrow> [] | Some xs \<Rightarrow> xs)"

definition lastPage :: "response \<Rightarrow> bool" where
  "lastPage res = (items res = None \<or> length (the (items res)) < 100)"


text \<open>The pairs \<open>(cursor, to)\<close> of the iterations of the loop over the date
  ranges, as instants; the requests carry their dates.\<close>

fun dateWindows :: "nat \<Rightarrow> date \<Rightarrow> date \<Rightarrow> int \<Rightarrow> (date \<times> date) list" where
  "dateWindows 0 cursor end step = []"
| "dateWindows (Suc n) cursor end step =
     (if cursor < end then
        (let next = addDays cursor step;
             to = (if next > end then end else next)
         in (cursor, to) # dateWindows n to end step)
      else [])"

section \<open>Excluded actors\<close>

text \<open>
  The actors that the specification excludes: an account kind other than \<open>User\<close>,
  a login that ends in \<open>[bot]\<close>, or no login. \<open>excludedActor\<close> is the same with
  an account kind that is not the empty string, which is what \<open>isBotUser\<close> tests.
\<close>

definition claimedNonHuman :: "GitHubUser \<Rightarrow> bool" where
  "claimedNonHuman u =
     ((case u_type u of None \<Rightarrow> False | Some k \<Rightarrow> k \<noteq> ''User'') \<or>
      (case u_login u of None \<Rightarrow> True | Some l \<Rightarrow> endsWith l ''[bot]''))"

definition excludedActor :: "GitHubUser \<Rightarrow> bool" where
  "excludedActor u =
     ((case u_type u of None \<Rightarrow> False | Some k \<Rightarrow> k \<noteq> [] \<and> k \<noteq> ''User'') \<or>
      (case u_login u of None \<Rightarrow> True | Some l \<Rightarrow> endsWith l ''[bot]''))"

definition keepHumans :: "GitHubItem list \<Rightarrow> GitHubItem list" where
  "keepHumans its = filter (\<lambda>it. \<not> excludedActor (it_user it)) its"

text \<open>A pull request whose actor has the empty string as account kind, an
  issue of a bot that has no login, and an issue of \<open>bob\<close>.\<close>

definition prBlankKind :: GitHubItem where
  "prBlankKind = \<lparr>it_user = \<lparr>u_login = Some ''alice'', u_name = None, u_avatar_url = None,
       u_type = Some []\<rparr>,
     created_at = ''2025-01-10T10:00:00Z'', closed_at = [], it_title = None, html_url = None\<rparr>"

definition issueNoLogin :: GitHubItem where
  "issueNoLogin = \<lparr>it_user = \<lparr>u_login = None, u_name = None, u_avatar_url = None,
       u_type = Some ''Organization''\<rparr>,
     created_at = ''2025-01-12T12:00:00Z'', closed_at = [], it_title = None, html_url = None\<rparr>"

definition issue4 :: GitHubItem where
  "issue4 = \<lparr>it_user = \<lparr>u_login = Some ''bob'', u_name = None, u_avatar_url = None,
       u_type = Some ''User''\<rparr>,
     created_at = ''2025-01-10T10:00:00Z'', closed_at = [], it_title = Some ''Docs: typo'',
     html_url = Some ''https://github.com/CircuitVerse/cv/issues/4''\<rparr>"

section \<open>Buckets computed from a list of activities\<close>

text \<open>
  The bucket that a list of activities gives to a key: the number and the
  points of the activities of that key, and nothing when there is none. In the
  same way the \<open>daily_activity\<close> element of a day. \<open>key\<close> and \<open>pts\<close> read the key
  and the points of an activity.
\<close>

definition bucketOf :: "('a \<Rightarrow> 'k) \<Rightarrow> ('a \<Rightarrow> int) \<Rightarrow> 'k \<Rightarrow> 'a list \<Rightarrow> bucket option" where
  "bucketOf key pts k xs =
     (let ys = filter (\<lambda>a. key a = k) xs in
      if ys = [] then None else Some \<lparr>count = length ys, points = sum_list (map pts ys)\<rparr>)"

definition dailyOf :: "('a \<Rightarrow> string) \<Rightarrow> ('a \<Rightarrow> int) \<Rightarrow> string \<Rightarrow> 'a list \<Rightarrow> daily option" where
  "dailyOf key pts day xs =
     (let ys = filter (\<lambda>a. key a = day) xs in
      if ys = [] then None
      else Some \<lparr>d_date = day, d_count = length ys, d_points = sum_list (map pts ys)\<rparr>)"

definition rawDay :: "raw_activity \<Rightarrow> string" where
  "rawDay a = dayOf (occured_at a)"

definition periodBucket :: "ActivityType \<Rightarrow> period_activity list \<Rightarrow> bucket option" where
  "periodBucket k acts = bucketOf pa_type pa_points k acts"

definition periodDay :: "string \<Rightarrow> period_activity list \<Rightarrow> daily option" where
  "periodDay day acts = dailyOf (\<lambda>a. dayOf (pa_occured_at a)) pa_points day acts"

text \<open>A map of users in which every entry sits under its own user name, once.\<close>

definition wellKeyed :: "users \<Rightarrow> bool" where
  "wellKeyed m = (distinct (map fst m) \<and> list_all (\<lambda>ke. username (snd ke) = fst ke) m)"


text \<open>The buckets and the daily elements of an entry tally with its activity
  log: one bucket for each kind and one element for each day that occur in the
  log, holding the number and the points of the activities of that kind or
  day.\<close>

definition tallies :: "UserEntry \<Rightarrow> bool" where
  "tallies e =
     (distinct (map d_date (daily_activity e)) \<and>
      (\<forall>day. find (\<lambda>d. d_date d = day) (daily_activity e) =
               dailyOf rawDay a_points day (raw_activities e)) \<and>
      distinct (map fst (activity_breakdown e)) \<and>
      (\<forall>k. map_of (activity_breakdown e) k = bucketOf a_type a_points k (raw_activities e)))"





text \<open>A server whose every range has two pages: a full one and a short one.\<close>

definition pagedServer :: "request \<Rightarrow> response" where
  "pagedServer rq =
     (if rq_page rq = 1 then \<lparr>status = 200, body = [], items = Some (replicate 100 pr1)\<rparr>
      else \<lparr>status = 200, body = [], items = Some [pr1]\<rparr>)"

section \<open>Totals, buckets and the activity log\<close>

lemma rebuildStep_triple:
  "rebuildStep (t, bd, dl) a =
     (t + a_points a, bump (a_type a) (a_points a) bd,
      bumpDaily (dayOf (occured_at a)) (a_points a) dl)"
  by (simp add: rebuildStep_def)

lemma breakdownPoints_bump: "breakdownPoints (bump k p bd) = breakdownPoints bd + p"
  by (induction bd) (auto simp: breakdownPoints_def)

lemma consistent_newEntry: "consistent (newEntry l u)"
  by (simp add: consistent_def newEntry_def breakdownPoints_def rawPoints_def)

lemma consistent_addActivity:
  "consistent e \<Longrightarrow> consistent (addActivity e ty date pts title link)"
  by (simp add: consistent_def addActivity_def Let_def breakdownPoints_bump rawPoints_def)

text \<open>A property of entries that a fresh entry has and \<open>addActivity\<close> keeps holds
  for every entry of the aggregate.\<close>

lemma kept_modify:
  assumes "\<forall>e \<in> snd ` set m. P e" and "\<And>e. P e \<Longrightarrow> P (f e)"
  shows "\<forall>e \<in> snd ` set (modify l f m). P e"
  using assms by (induction m) (fastforce split: if_splits)+

lemma kept_ensureUser:
  "\<forall>e \<in> snd ` set m. P e \<Longrightarrow> P (newEntry l u) \<Longrightarrow> \<forall>e \<in> snd ` set (ensureUser m l u). P e"
  by (auto simp: ensureUser_def)

lemma kept_foldItem:
  assumes "\<forall>e \<in> snd ` set m. P e"
    and new: "\<And>l u. P (newEntry l u)"
    and add: "\<And>e ty date pts title link. P e \<Longrightarrow> P (addActivity e ty date pts title link)"
  shows "\<forall>e \<in> snd ` set (foldItem ty when pts m it). P e"
proof (cases "isBotUser (it_user it)")
  case True
  with assms(1) show ?thesis by (simp add: foldItem_def)
next
  case False
  have "\<forall>e \<in> snd ` set (ensureUser m (the (u_login (it_user it))) (it_user it)). P e"
    using assms(1) new by (rule kept_ensureUser)
  then have "\<forall>e \<in> snd ` set (modify (the (u_login (it_user it)))
        (\<lambda>e. addActivity e ty (when it) pts (it_title it) (html_url it))
        (ensureUser m (the (u_login (it_user it))) (it_user it))). P e"
    by (rule kept_modify) (rule add)
  with False show ?thesis by (simp add: foldItem_def Let_def)
qed

lemma kept_foldl:
  assumes "\<forall>e \<in> snd ` set m. P e"
    and new: "\<And>l u. P (newEntry l u)"
    and add: "\<And>e ty date pts title link. P e \<Longrightarrow> P (addActivity e ty date pts title link)"
  shows "\<forall>e \<in> snd ` set (foldl (foldItem ty when pts) m its). P e"
  using assms(1)
proof (induction its arbitrary: m)
  case Nil
  then show ?case by simp
next
  case (Cons it its)
  from Cons.prems have "\<forall>e \<in> snd ` set (foldItem ty when pts m it). P e"
    using new add by (rule kept_foldItem)
  then show ?case using Cons.IH by simp
qed

lemma kept_aggregate:
  assumes new: "\<And>l u. P (newEntry l u)"
    and add: "\<And>e ty date pts title link. P e \<Longrightarrow> P (addActivity e ty date pts title link)"
  shows "\<forall>e \<in> snd ` set (aggregate prs merged issues). P e"
  unfolding aggregate_def
  by (intro kept_foldl new add) simp

lemma consistent_aggregate: "\<forall>e \<in> snd ` set (aggregate prs merged issues). consistent e"
  by (rule kept_aggregate) (rule consistent_newEntry consistent_addActivity)+

lemma set_yearEntries:
  "set (yearEntries prs merged issues) \<subseteq> snd ` set (aggregate prs merged issues)"
  by (auto simp: yearEntries_def)

text \<open>The rebuilt triple, for any starting values of the three variables.\<close>

lemma foldl_rebuildStep:
  "foldl rebuildStep (t, bd, dl) acts = (t', bd', dl') \<Longrightarrow>
   t' = t + rawPoints acts \<and> breakdownPoints bd' = breakdownPoints bd + rawPoints acts"
proof (induction acts arbitrary: t bd dl)
  case Nil
  then show ?case by (simp add: rawPoints_def)
next
  case (Cons a acts)
  from Cons.prems have
    "foldl rebuildStep (t + a_points a, bump (a_type a) (a_points a) bd,
       bumpDaily (dayOf (occured_at a)) (a_points a) dl) acts = (t', bd', dl')"
    by (simp add: rebuildStep_triple)
  from Cons.IH [OF this] show ?case
    by (simp add: breakdownPoints_bump rawPoints_def)
qed

lemma rebuild_points:
  "rebuild acts = (t, bd, dl) \<Longrightarrow> t = rawPoints acts \<and> breakdownPoints bd = rawPoints acts"
  unfolding rebuild_def
  by (drule foldl_rebuildStep) (simp add: breakdownPoints_def)

lemma periodPoints_map: "periodPoints (map (toPeriodActivity e) acts) = rawPoints acts"
  by (simp add: periodPoints_def rawPoints_def toPeriodActivity_def comp_def)

lemma deriveEntry_points:
  "deriveEntry parse cutoff e = Some d \<Longrightarrow>
   p_total_points d = breakdownPoints (p_activity_breakdown d) \<and>
   p_total_points d = periodPoints (activities d)"
  by (auto simp: deriveEntry_def Let_def periodPoints_map split: if_splits prod.splits
      dest!: rebuild_points)

lemma set_derivePeriod:
  "d \<in> set (derivePeriod parse cutoff entries) \<longleftrightarrow>
   (\<exists>e \<in> set entries. deriveEntry parse cutoff e = Some d)"
  by (force simp: derivePeriod_def List.map_filter_def)


text \<open>
  C1. In the year document and in every derived period document, the
  \<open>total_points\<close> of each entry is the sum of the points of its
  \<open>activity_breakdown\<close> buckets and the sum of the points of its activities: of
  \<open>raw_activities\<close> in the year document, of the filtered list \<open>activities\<close>
  in a derived one.
\<close>

theorem totals_agree:
  "(\<forall>e \<in> set (yearEntries prs merged issues).
      total_points e = breakdownPoints (activity_breakdown e) \<and>
      total_points e = rawPoints (raw_activities e)) \<and>
   (\<forall>d \<in> set (derivePeriod parse cutoff (yearEntries prs merged issues)).
      p_total_points d = breakdownPoints (p_activity_breakdown d) \<and>
      p_total_points d = periodPoints (activities d))"
proof (intro conjI ballI)
  fix e
  assume "e \<in> set (yearEntries prs merged issues)"
  then have "consistent e"
    using set_yearEntries consistent_aggregate by blast
  then show "total_points e = breakdownPoints (activity_breakdown e)"
    and "total_points e = rawPoints (raw_activities e)"
    by (simp_all add: consistent_def)
next
  fix d
  assume "d \<in> set (derivePeriod parse cutoff (yearEntries prs merged issues))"
  then obtain e where "deriveEntry parse cutoff e = Some d"
    by (auto simp: set_derivePeriod)
  then have "p_total_points d = breakdownPoints (p_activity_breakdown d) \<and>
      p_total_points d = periodPoints (activities d)"
    by (rule deriveEntry_points)
  then show "p_total_points d = breakdownPoints (p_activity_breakdown d)"
    and "p_total_points d = periodPoints (activities d)"
    by blast+
qed

lemma sample_year_totals:
  "yearEntries [pr1] [pr1] [issue2] \<noteq> [] \<and>
   total_points (hd (yearEntries [pr1] [pr1] [issue2])) = 7"
  by code_simp

lemma sample_week_totals:
  "derivePeriod sampleParse 1736600000000 (yearEntries [pr1] [pr1] [issue2]) \<noteq> [] \<and>
   p_total_points
     (hd (derivePeriod sampleParse 1736600000000 (yearEntries [pr1] [pr1] [issue2]))) = 5"
  by code_simp

theorem totals_agree_witness:
  "yearEntries [pr1] [pr1] [issue2] \<noteq> [] \<and>
   breakdownPoints (activity_breakdown (hd (yearEntries [pr1] [pr1] [issue2]))) = 7 \<and>
   rawPoints (raw_activities (hd (yearEntries [pr1] [pr1] [issue2]))) = 7 \<and>
   derivePeriod sampleParse 1736600000000 (yearEntries [pr1] [pr1] [issue2]) \<noteq> [] \<and>
   breakdownPoints (p_activity_breakdown
     (hd (derivePeriod sampleParse 1736600000000 (yearEntries [pr1] [pr1] [issue2])))) = 5 \<and>
   periodPoints (activities
     (hd (derivePeriod sampleParse 1736600000000 (yearEntries [pr1] [pr1] [issue2])))) = 5"
proof -
  let ?ys = "yearEntries [pr1] [pr1] [issue2]"
  let ?ds = "derivePeriod sampleParse 1736600000000 ?ys"
  have y: "?ys \<noteq> []" "total_points (hd ?ys) = 7"
    using sample_year_totals by blast+
  have d: "?ds \<noteq> []" "p_total_points (hd ?ds) = 5"
    using sample_week_totals by blast+
  have "hd ?ys \<in> set ?ys" and "hd ?ds \<in> set ?ds"
    using y(1) d(1) by simp_all
  with totals_agree [of "[pr1]" "[pr1]" "[issue2]" sampleParse 1736600000000]
  have "total_points (hd ?ys) = breakdownPoints (activity_breakdown (hd ?ys))"
    and "total_points (hd ?ys) = rawPoints (raw_activities (hd ?ys))"
    and "p_total_points (hd ?ds) = breakdownPoints (p_activity_breakdown (hd ?ds))"
    and "p_total_points (hd ?ds) = periodPoints (activities (hd ?ds))"
    by blast+
  with y d show ?thesis by simp
qed

section \<open>The per-period generator\<close>

text \<open>
  C10. In the per-period generator, \<open>addActivity\<close> with an undefined time stamp
  returns the entry as it was: \<open>total_points\<close>, \<open>activity_breakdown\<close> and
  \<open>daily_activity\<close> keep their values, and the call produces an entry, no error.
\<close>

theorem addActivity_period_undefined:
  "addActivity_period entry ty None pts = entry \<and>
   g_total_points (addActivity_period entry ty None pts) = g_total_points entry \<and>
   g_activity_breakdown (addActivity_period entry ty None pts) = g_activity_breakdown entry \<and>
   g_daily_activity (addActivity_period entry ty None pts) = g_daily_activity entry"
  by (simp add: addActivity_period_def truthy_def)

text \<open>A defined, non-empty time stamp does change the entry: the early return is
  what decides the case above.\<close>

lemma addActivity_period_defined:
  "date \<noteq> [] \<Longrightarrow>
   g_total_points (addActivity_period entry ty (Some date) pts) = g_total_points entry + pts \<and>
   length (g_daily_activity (addActivity_period entry ty (Some date) pts)) =
     Suc (length (g_daily_activity entry))"
  by (simp add: addActivity_period_def truthy_def)

text \<open>
  C4, on the per-period generator. Two pull requests that \<open>alice\<close> opened on
  10 January 2025 give her entry two \<open>daily_activity\<close> elements of that date,
  each of count 1, where the specification wants one element of count 2.
\<close>

theorem generate_entries_same_day:
  "map (\<lambda>e. map (\<lambda>d. (d_date d, d_count d, d_points d)) (g_daily_activity e))
     (generate_entries [pr1, pr3] [] []) =
   [[(''2025-01-10'', 1, 2), (''2025-01-10'', 1, 2)]]"
  by code_simp

section \<open>Freshness\<close>

text \<open>
  C6. With a TTL \<open>T\<close> not above the stale ceiling \<open>S\<close>, a cached document of age
  \<open>a\<close> is fresh exactly when \<open>a < T\<close>, stale exactly when \<open>T \<le> a < S\<close>, and
  expired exactly when \<open>a \<ge> S\<close> or there is no record. The classifier returns one
  of the three states for every input, so they are exhaustive and exclusive.
\<close>

theorem classify_iff:
  assumes "T \<le> S"
  shows "(classify T S now rec = Fresh \<longleftrightarrow> (\<exists>r. rec = Some r \<and> age now r < T)) \<and>
         (classify T S now rec = Stale \<longleftrightarrow> (\<exists>r. rec = Some r \<and> T \<le> age now r \<and> age now r < S)) \<and>
         (classify T S now rec = Expired \<longleftrightarrow> rec = None \<or> (\<exists>r. rec = Some r \<and> age now r \<ge> S))"
  using assms by (cases rec) (auto simp: classify_def)

theorem classify_iff_witness:
  "classify 3600 86400 100000
     (Some \<lparr>builtAtEpochMillis = 99000, serializedPeriodDocument = ''{}''\<rparr>) = Fresh \<and>
   classify 3600 86400 100000
     (Some \<lparr>builtAtEpochMillis = 90000, serializedPeriodDocument = ''{}''\<rparr>) = Stale \<and>
   classify 3600 86400 100000
     (Some \<lparr>builtAtEpochMillis = 10000, serializedPeriodDocument = ''{}''\<rparr>) = Expired \<and>
   classify 3600 86400 100000 None = Expired"
proof -
  have h: "(3600::int) \<le> 86400" by simp
  show ?thesis
    using classify_iff [OF h, of 100000
        "Some \<lparr>builtAtEpochMillis = 99000, serializedPeriodDocument = ''{}''\<rparr>"]
      classify_iff [OF h, of 100000
        "Some \<lparr>builtAtEpochMillis = 90000, serializedPeriodDocument = ''{}''\<rparr>"]
      classify_iff [OF h, of 100000
        "Some \<lparr>builtAtEpochMillis = 10000, serializedPeriodDocument = ''{}''\<rparr>"]
      classify_iff [OF h, of 100000 None]
    by (simp add: age_def)
qed

section \<open>The event fetcher\<close>

text \<open>
  C9. For a range with \<open>start \<ge> end\<close> the loop body never runs:
  \<open>searchByDateChunks\<close> sends no request and returns the empty list.
\<close>

theorem search_empty_range:
  "end \<le> start \<Longrightarrow> searchByDateChunks n srv q start end step = ([], Returned [])"
  by (cases n) (simp_all add: searchByDateChunks_def)

theorem search_empty_range_witness:
  "searchByDateChunks 3 limitedServer ''org:CircuitVerse+is:pr'' 172800000 86400000 30 =
     ([], Returned [])"
proof -
  have h: "(86400000::int) \<le> 172800000" by simp
  show ?thesis
    using search_empty_range [OF h, of 3 limitedServer "''org:CircuitVerse+is:pr''" 30]
    by simp
qed

subsection \<open>One step of each loop\<close>

lemma ghSearch_ok:
  "ok (srv rq) \<Longrightarrow> ghSearch srv rq = ([Fetch rq, Sleep 2500], Returned (items (srv rq)))"
  by (simp add: ghSearch_def Let_def)

lemma ghSearch_failed:
  "\<not> ok (srv rq) \<Longrightarrow>
   ghSearch srv rq = ([Fetch rq], Threw (GitHubAPIError (status (srv rq)) (body (srv rq))))"
  by (simp add: ghSearch_def Let_def)

lemma pageLoop_failed:
  assumes "\<not> ok (srv \<lparr>rq_query = q, rq_from = f, rq_to = t, rq_page = p\<rparr>)"
  shows "pageLoop (Suc n) srv q f t p acc =
     ([Fetch \<lparr>rq_query = q, rq_from = f, rq_to = t, rq_page = p\<rparr>],
      Threw (GitHubAPIError (status (srv \<lparr>rq_query = q, rq_from = f, rq_to = t, rq_page = p\<rparr>))
        (body (srv \<lparr>rq_query = q, rq_from = f, rq_to = t, rq_page = p\<rparr>))))"
  using assms by (simp add: ghSearch_failed)

lemma pageLoop_last:
  assumes "ok (srv \<lparr>rq_query = q, rq_from = f, rq_to = t, rq_page = p\<rparr>)"
    and "lastPage (srv \<lparr>rq_query = q, rq_from = f, rq_to = t, rq_page = p\<rparr>)"
  shows "pageLoop (Suc n) srv q f t p acc =
     ([Fetch \<lparr>rq_query = q, rq_from = f, rq_to = t, rq_page = p\<rparr>, Sleep 2500],
      Returned (acc @ pageItems (srv \<lparr>rq_query = q, rq_from = f, rq_to = t, rq_page = p\<rparr>)))"
  using assms by (auto simp: ghSearch_ok lastPage_def pageItems_def Let_def)

lemma pageLoop_more:
  assumes "ok (srv \<lparr>rq_query = q, rq_from = f, rq_to = t, rq_page = p\<rparr>)"
    and "\<not> lastPage (srv \<lparr>rq_query = q, rq_from = f, rq_to = t, rq_page = p\<rparr>)"
  shows "pageLoop (Suc n) srv q f t p acc =
     ([Fetch \<lparr>rq_query = q, rq_from = f, rq_to = t, rq_page = p\<rparr>, Sleep 2500] @
        fst (pageLoop n srv q f t (p + 1)
          (acc @ pageItems (srv \<lparr>rq_query = q, rq_from = f, rq_to = t, rq_page = p\<rparr>))),
      snd (pageLoop n srv q f t (p + 1)
          (acc @ pageItems (srv \<lparr>rq_query = q, rq_from = f, rq_to = t, rq_page = p\<rparr>))))"
  using assms
  by (auto simp: ghSearch_ok lastPage_def pageItems_def Let_def split: prod.splits)

lemma pageLoop_cases:
  obtains (failed) "\<not> ok (srv \<lparr>rq_query = q, rq_from = f, rq_to = t, rq_page = p\<rparr>)"
  | (last) "ok (srv \<lparr>rq_query = q, rq_from = f, rq_to = t, rq_page = p\<rparr>)"
      "lastPage (srv \<lparr>rq_query = q, rq_from = f, rq_to = t, rq_page = p\<rparr>)"
  | (more) "ok (srv \<lparr>rq_query = q, rq_from = f, rq_to = t, rq_page = p\<rparr>)"
      "\<not> lastPage (srv \<lparr>rq_query = q, rq_from = f, rq_to = t, rq_page = p\<rparr>)"
  by blast

lemma chunkLoop_done: "end \<le> cursor \<Longrightarrow> chunkLoop n srv q cursor end step acc = ([], Returned acc)"
  by (cases n) simp_all

lemma chunkLoop_step:
  assumes "cursor < end"
  shows "chunkLoop (Suc n) srv q cursor end step acc =
     (case pageLoop (Suc n) srv q (iso cursor) (iso (min (addDays cursor step) end)) 1 acc of
        (tr, Returned acc') \<Rightarrow>
          (tr @ fst (chunkLoop n srv q (min (addDays cursor step) end) end step acc'),
           snd (chunkLoop n srv q (min (addDays cursor step) end) end step acc'))
      | (tr, Threw e) \<Rightarrow> (tr, Threw e)
      | (tr, Diverged) \<Rightarrow> (tr, Diverged))"
proof -
  have "(if addDays cursor step > end then end else addDays cursor step) =
      min (addDays cursor step) end"
    by (simp add: min_def)
  with assms show ?thesis
    by (simp add: Let_def del: pageLoop.simps split: prod.splits outcome.splits)
qed

subsection \<open>A failed request ends the fetch\<close>

lemma pageLoop_failure:
  "Fetch rq \<in> set (fst (pageLoop n srv q f t p acc)) \<Longrightarrow> \<not> ok (srv rq) \<Longrightarrow>
   snd (pageLoop n srv q f t p acc) = Threw (GitHubAPIError (status (srv rq)) (body (srv rq)))"
proof (induction n arbitrary: p acc)
  case 0
  then show ?case by simp
next
  case (Suc n)
  show ?case
  proof (cases rule: pageLoop_cases [of srv q f t p])
    case failed
    with Suc.prems show ?thesis by (simp add: pageLoop_failed del: pageLoop.simps)
  next
    case last
    with Suc.prems show ?thesis by (auto simp: pageLoop_last simp del: pageLoop.simps)
  next
    case more
    with Suc.prems Suc.IH show ?thesis by (auto simp: pageLoop_more simp del: pageLoop.simps)
  qed
qed

lemma chunkLoop_failure:
  "Fetch rq \<in> set (fst (chunkLoop n srv q cursor end step acc)) \<Longrightarrow> \<not> ok (srv rq) \<Longrightarrow>
   snd (chunkLoop n srv q cursor end step acc) =
     Threw (GitHubAPIError (status (srv rq)) (body (srv rq)))"
proof (induction n arbitrary: cursor acc)
  case 0
  then show ?case by (simp split: if_splits)
next
  case (Suc n)
  show ?case
  proof (cases "cursor < end")
    case False
    with Suc.prems show ?thesis by (simp add: chunkLoop_done)
  next
    case True
    obtain tr r where pl:
      "pageLoop (Suc n) srv q (iso cursor) (iso (min (addDays cursor step) end)) 1 acc = (tr, r)"
      by (cases "pageLoop (Suc n) srv q (iso cursor) (iso (min (addDays cursor step) end)) 1 acc")
    show ?thesis
    proof (cases r)
      case (Returned acc')
      have "Fetch rq \<notin> set tr"
        using pageLoop_failure [of rq "Suc n" srv q "iso cursor"
            "iso (min (addDays cursor step) end)" 1 acc] pl Returned Suc.prems(2)
        by auto
      with Suc.prems True pl Returned Suc.IH show ?thesis
        by (auto simp: chunkLoop_step simp del: pageLoop.simps chunkLoop.simps)
    next
      case (Threw e)
      with Suc.prems True pl
        pageLoop_failure [of rq "Suc n" srv q "iso cursor"
            "iso (min (addDays cursor step) end)" 1 acc]
      show ?thesis
        by (auto simp: chunkLoop_step simp del: pageLoop.simps chunkLoop.simps)
    next
      case Diverged
      with Suc.prems True pl
        pageLoop_failure [of rq "Suc n" srv q "iso cursor"
            "iso (min (addDays cursor step) end)" 1 acc]
      show ?thesis
        by (auto simp: chunkLoop_step simp del: pageLoop.simps chunkLoop.simps)
    qed
  qed
qed

lemma andThen_failure:
  assumes "Fetch rq \<in> set (fst (andThen m f))"
    and m: "Fetch rq \<in> set (fst m) \<Longrightarrow> snd m = Threw err"
    and f: "\<And>x. Fetch rq \<in> set (fst (f x)) \<Longrightarrow> snd (f x) = Threw err"
  shows "snd (andThen m f) = Threw err"
proof (cases m)
  case (Pair tr r)
  show ?thesis
  proof (cases r)
    case (Returned x)
    with Pair m have "Fetch rq \<notin> set tr" by auto
    with assms(1) Pair Returned have "Fetch rq \<in> set (fst (f x))"
      by (auto simp: andThen_def split: prod.splits)
    with f [of x] Pair Returned show ?thesis
      by (auto simp: andThen_def split: prod.splits)
  next
    case (Threw e)
    with Pair assms(1) m show ?thesis by (auto simp: andThen_def)
  next
    case Diverged
    with Pair assms(1) m show ?thesis by (auto simp: andThen_def)
  qed
qed

lemma generateYear_failure:
  assumes "Fetch rq \<in> set (fst (generateYear n srv parse clock))" and "\<not> ok (srv rq)"
  shows "snd (generateYear n srv parse clock) =
     Threw (GitHubAPIError (status (srv rq)) (body (srv rq)))"
  using assms(1) unfolding generateYear_def Let_def
  by (intro andThen_failure)
     (auto simp: searchByDateChunks_def assms(2) intro: chunkLoop_failure andThen_failure)

text \<open>
  C7. When a search request of a fetch gets a status outside the success range,
  the fetch throws the error that carries this status and the text of the
  response; it returns no list of events, whatever it had collected. The year
  generator then throws the same error and writes no document.
\<close>

theorem failed_request_aborts:
  assumes "\<not> ok (srv rq)"
  shows "(Fetch rq \<in> set (fst (searchByDateChunks n srv q start end step)) \<longrightarrow>
            snd (searchByDateChunks n srv q start end step) =
              Threw (GitHubAPIError (status (srv rq)) (body (srv rq)))) \<and>
         (Fetch rq \<in> set (fst (generateYear n srv parse clock)) \<longrightarrow>
            snd (generateYear n srv parse clock) =
              Threw (GitHubAPIError (status (srv rq)) (body (srv rq))))"
  using assms chunkLoop_failure generateYear_failure
  by (simp add: searchByDateChunks_def)

lemma limited_run:
  "searchByDateChunks 3 limitedServer ''org:CircuitVerse+is:pr'' 0 172800000 30 =
     ([Fetch \<lparr>rq_query = ''org:CircuitVerse+is:pr'', rq_from = 0, rq_to = 2, rq_page = 1\<rparr>,
       Sleep 2500,
       Fetch \<lparr>rq_query = ''org:CircuitVerse+is:pr'', rq_from = 0, rq_to = 2, rq_page = 2\<rparr>],
      Threw (GitHubAPIError 403 ''rate limit exceeded''))"
  by code_simp

lemma limited_year_run:
  "Fetch \<lparr>rq_query = ''org:CircuitVerse+is:pr'', rq_from = 0, rq_to = 30, rq_page = 2\<rparr>
     \<in> set (fst (generateYear 3 limitedServer sampleParse (\<lambda>k. 31536000000)))"
  by code_simp

theorem failed_request_aborts_witness:
  "\<not> ok (limitedServer
       \<lparr>rq_query = ''org:CircuitVerse+is:pr'', rq_from = 0, rq_to = 2, rq_page = 2\<rparr>) \<and>
   snd (searchByDateChunks 3 limitedServer ''org:CircuitVerse+is:pr'' 0 172800000 30) =
     Threw (GitHubAPIError 403 ''rate limit exceeded'') \<and>
   snd (generateYear 3 limitedServer sampleParse (\<lambda>k. 31536000000)) =
     Threw (GitHubAPIError 403 ''rate limit exceeded'')"
proof -
  let ?rq = "\<lparr>rq_query = ''org:CircuitVerse+is:pr'', rq_from = 0, rq_to = 2, rq_page = 2\<rparr>"
  let ?rq' = "\<lparr>rq_query = ''org:CircuitVerse+is:pr'', rq_from = 0, rq_to = 30, rq_page = 2\<rparr>"
  have h: "\<not> ok (limitedServer ?rq)" and h': "\<not> ok (limitedServer ?rq')"
    by (simp_all add: limitedServer_def ok_def)
  have "Fetch ?rq \<in> set (fst (searchByDateChunks 3 limitedServer ''org:CircuitVerse+is:pr'' 0 172800000 30))"
    by (simp add: limited_run)
  with failed_request_aborts [of limitedServer ?rq 3 "''org:CircuitVerse+is:pr''" 0 172800000 30] h
  have "snd (searchByDateChunks 3 limitedServer ''org:CircuitVerse+is:pr'' 0 172800000 30) =
      Threw (GitHubAPIError 403 ''rate limit exceeded'')"
    by (simp add: limitedServer_def)
  moreover from failed_request_aborts [of limitedServer ?rq' 3 _ _ _ _ sampleParse
      "\<lambda>k. 31536000000"] h' limited_year_run
  have "snd (generateYear 3 limitedServer sampleParse (\<lambda>k. 31536000000)) =
      Threw (GitHubAPIError 403 ''rate limit exceeded'')"
    by (simp add: limitedServer_def)
  ultimately show ?thesis using h by simp
qed

subsection \<open>The delay between requests\<close>

lemma throttled_append: "okTrace srv a \<Longrightarrow> throttled srv (a @ b) = throttled srv b"
  by (induction srv a rule: okTrace.induct) simp_all

lemma okTrace_append: "okTrace srv a \<Longrightarrow> okTrace srv (a @ b) = okTrace srv b"
  by (induction srv a rule: okTrace.induct) simp_all

lemma okTrace_throttled: "okTrace srv a \<Longrightarrow> throttled srv a"
  by (induction srv a rule: okTrace.induct) simp_all

lemma okTrace_alwaysDelayed: "okTrace srv a \<Longrightarrow> alwaysDelayed a"
  by (induction srv a rule: okTrace.induct) simp_all

lemma pageLoop_okTrace:
  "\<forall>e. snd (pageLoop n srv q f t p acc) \<noteq> Threw e \<Longrightarrow> okTrace srv (fst (pageLoop n srv q f t p acc))"
proof (induction n arbitrary: p acc)
  case 0
  then show ?case by simp
next
  case (Suc n)
  show ?case
  proof (cases rule: pageLoop_cases [of srv q f t p])
    case failed
    with Suc.prems show ?thesis by (simp add: pageLoop_failed del: pageLoop.simps)
  next
    case last
    then show ?thesis by (simp add: pageLoop_last del: pageLoop.simps)
  next
    case more
    with Suc.prems Suc.IH show ?thesis by (simp add: pageLoop_more del: pageLoop.simps)
  qed
qed

lemma pageLoop_throttled: "throttled srv (fst (pageLoop n srv q f t p acc))"
proof (induction n arbitrary: p acc)
  case 0
  then show ?case by simp
next
  case (Suc n)
  show ?case
  proof (cases rule: pageLoop_cases [of srv q f t p])
    case failed
    then show ?thesis by (simp add: pageLoop_failed del: pageLoop.simps)
  next
    case last
    then show ?thesis by (simp add: pageLoop_last del: pageLoop.simps)
  next
    case more
    with Suc.IH show ?thesis by (simp add: pageLoop_more del: pageLoop.simps)
  qed
qed

lemma chunkLoop_throttled: "throttled srv (fst (chunkLoop n srv q cursor end step acc))"
proof (induction n arbitrary: cursor acc)
  case 0
  then show ?case by simp
next
  case (Suc n)
  show ?case
  proof (cases "cursor < end")
    case False
    then show ?thesis by (simp add: chunkLoop_done)
  next
    case True
    obtain tr r where pl:
      "pageLoop (Suc n) srv q (iso cursor) (iso (min (addDays cursor step) end)) 1 acc = (tr, r)"
      by (cases "pageLoop (Suc n) srv q (iso cursor) (iso (min (addDays cursor step) end)) 1 acc")
    have thr: "throttled srv tr"
      using pageLoop_throttled [of srv "Suc n" q "iso cursor"
          "iso (min (addDays cursor step) end)" 1 acc] pl by simp
    show ?thesis
    proof (cases r)
      case (Returned acc')
      then have "okTrace srv tr"
        using pageLoop_okTrace [of "Suc n" srv q "iso cursor"
            "iso (min (addDays cursor step) end)" 1 acc] pl by simp
      with True pl Returned Suc.IH show ?thesis
        by (simp add: chunkLoop_step throttled_append del: pageLoop.simps chunkLoop.simps)
    next
      case (Threw e)
      with True pl thr show ?thesis
        by (simp add: chunkLoop_step del: pageLoop.simps chunkLoop.simps)
    next
      case Diverged
      with True pl thr show ?thesis
        by (simp add: chunkLoop_step del: pageLoop.simps chunkLoop.simps)
    qed
  qed
qed

text \<open>
  C8, as the code has it. After every request that gets a success status the
  fetcher waits 2500 ms before it does anything else. A request that gets
  another status is followed by no delay: \<open>ghSearch\<close> throws before it reaches the
  \<open>sleep\<close>, and that request is the last of the fetch.
\<close>

theorem delay_after_success:
  "throttled srv (fst (searchByDateChunks n srv q start end step)) \<and>
   fst (ghSearch srv rq) = (if ok (srv rq) then [Fetch rq, Sleep 2500] else [Fetch rq])"
  by (simp add: searchByDateChunks_def chunkLoop_throttled ghSearch_def Let_def)

theorem delay_after_success_witness:
  "throttled limitedServer
     (fst (searchByDateChunks 3 limitedServer ''org:CircuitVerse+is:pr'' 0 172800000 30)) \<and>
   fst (ghSearch limitedServer
     \<lparr>rq_query = ''org:CircuitVerse+is:pr'', rq_from = 0, rq_to = 2, rq_page = 1\<rparr>) =
     [Fetch \<lparr>rq_query = ''org:CircuitVerse+is:pr'', rq_from = 0, rq_to = 2, rq_page = 1\<rparr>,
      Sleep 2500]"
  using delay_after_success [of limitedServer 3 "''org:CircuitVerse+is:pr''" 0 172800000 30
      "\<lparr>rq_query = ''org:CircuitVerse+is:pr'', rq_from = 0, rq_to = 2, rq_page = 1\<rparr>"]
  by (simp add: limitedServer_def ok_def)

text \<open>C8 as the specification words it fails on the run of \<open>limitedServer\<close>: its second
  request gets status 403 and no delay follows it.\<close>

theorem delay_after_failure_counterexample:
  "\<not> alwaysDelayed
       (fst (searchByDateChunks 3 limitedServer ''org:CircuitVerse+is:pr'' 0 172800000 30))"
  by (simp add: limited_run)

subsection \<open>The date ranges of a fetch\<close>

lemma queriedRanges_append: "queriedRanges (a @ b) = queriedRanges a @ queriedRanges b"
  by (induction a rule: queriedRanges.induct) simp_all

lemma pageLoop_ranges:
  "1 \<le> p \<Longrightarrow>
   queriedRanges (fst (pageLoop n srv q f t p acc)) = (if 0 < n \<and> p = 1 then [(f, t)] else [])"
proof (induction n arbitrary: p acc)
  case 0
  then show ?case by simp
next
  case (Suc n)
  show ?case
  proof (cases rule: pageLoop_cases [of srv q f t p])
    case failed
    then show ?thesis by (simp add: pageLoop_failed del: pageLoop.simps)
  next
    case last
    then show ?thesis by (simp add: pageLoop_last del: pageLoop.simps)
  next
    case more
    let ?acc = "acc @ pageItems (srv \<lparr>rq_query = q, rq_from = f, rq_to = t, rq_page = p\<rparr>)"
    have "queriedRanges (fst (pageLoop n srv q f t (p + 1) ?acc)) = []"
      using Suc.prems Suc.IH [of "p + 1" ?acc] by simp
    with more show ?thesis
      by (auto simp: pageLoop_more queriedRanges_append simp del: pageLoop.simps)
  qed
qed



lemma chain_le: "chain a rs b \<Longrightarrow> a \<le> b"
  by (induction rs arbitrary: a) force+

lemma chain_holding:
  "chain a rs b \<Longrightarrow> rangesHolding d rs = (if a \<le> d \<and> d < b then 1 else 0)"
proof (induction rs arbitrary: a)
  case Nil
  then show ?case by (simp add: rangesHolding_def)
next
  case (Cons r rs)
  obtain f t where r: "r = (f, t)" by (cases r)
  with Cons.prems have c: "f = a" "a \<le> t" "chain t rs b" by simp_all
  from c(3) have "t \<le> b" by (rule chain_le)
  moreover from Cons.IH [OF c(3)]
  have "rangesHolding d rs = (if t \<le> d \<and> d < b then 1 else 0)" .
  ultimately show ?case using r c(1,2) by (auto simp: rangesHolding_def)
qed




lemma dateWindows_step:
  "cursor < end \<Longrightarrow>
   dateWindows (Suc n) cursor end step =
     (cursor, min (addDays cursor step) end) # dateWindows n (min (addDays cursor step) end) end step"
  by (simp add: Let_def min_def)

lemma chunkLoop_windows:
  "0 < step \<Longrightarrow> cursor \<le> end \<Longrightarrow> snd (chunkLoop n srv q cursor end step acc) = Returned r \<Longrightarrow>
   queriedRanges (fst (chunkLoop n srv q cursor end step acc)) =
     map (\<lambda>w. (iso (fst w), iso (snd w))) (dateWindows n cursor end step) \<and>
   chain cursor (dateWindows n cursor end step) end \<and>
   (\<forall>w \<in> set (dateWindows n cursor end step). fst w < snd w)"
proof (induction n arbitrary: cursor acc)
  case 0
  then show ?case by (simp split: if_splits)
next
  case (Suc n)
  show ?case
  proof (cases "cursor < end")
    case False
    with Suc.prems show ?thesis by (simp add: chunkLoop_done)
  next
    case True
    let ?to = "min (addDays cursor step) end"
    obtain tr r' where pl: "pageLoop (Suc n) srv q (iso cursor) (iso ?to) 1 acc = (tr, r')"
      by (cases "pageLoop (Suc n) srv q (iso cursor) (iso ?to) 1 acc")
    from Suc.prems(3) True pl obtain acc' where r': "r' = Returned acc'"
      by (cases r') (simp_all add: chunkLoop_step del: pageLoop.simps chunkLoop.simps)
    have tr: "queriedRanges tr = [(iso cursor, iso ?to)]"
      using pageLoop_ranges [of 1 "Suc n" srv q "iso cursor" "iso ?to" acc] pl by simp
    have lt: "cursor < ?to"
      using True Suc.prems(1) by (simp add: addDays_def msPerDay_def)
    have "snd (chunkLoop n srv q ?to end step acc') = Returned r"
      using Suc.prems(3) True pl r'
      by (simp add: chunkLoop_step del: pageLoop.simps chunkLoop.simps)
    with Suc.IH [of ?to acc'] Suc.prems(1)
    have "queriedRanges (fst (chunkLoop n srv q ?to end step acc')) =
        map (\<lambda>w. (iso (fst w), iso (snd w))) (dateWindows n ?to end step) \<and>
      chain ?to (dateWindows n ?to end step) end \<and>
      (\<forall>w \<in> set (dateWindows n ?to end step). fst w < snd w)"
      by simp
    with True pl r' tr lt show ?thesis
      by (simp add: chunkLoop_step dateWindows_step queriedRanges_append
          del: pageLoop.simps chunkLoop.simps dateWindows.simps)
  qed
qed

text \<open>The windows \<open>[cursor, to)\<close> of the loop split \<open>[start, end)\<close>; the requests carry
  their dates only.\<close>

lemma windows_split_range:
  assumes "start < end" and "0 < step"
    and "snd (searchByDateChunks n srv q start end step) = Returned evs"
  shows "(\<forall>t. rangesHolding t (dateWindows n start end step) =
            (if start \<le> t \<and> t < end then 1 else 0)) \<and>
         queriedRanges (fst (searchByDateChunks n srv q start end step)) =
            map (\<lambda>w. (iso (fst w), iso (snd w))) (dateWindows n start end step)"
  using assms chunkLoop_windows [of step start "end" n srv q "[]" evs]
  by (simp add: searchByDateChunks_def chain_holding)




subsection \<open>A fetch whose pages end runs to its end\<close>




lemma paged_run:
  "queriedRanges (fst (searchByDateChunks 5 pagedServer ''org:CircuitVerse+is:issue'' 0 435600000 2)) =
     [(0, 2), (2, 4), (4, 5)]"
  by code_simp


lemma quiet_run:
  "queriedRanges (fst (searchByDateChunks 4 quietServer ''org:CircuitVerse+is:issue'' 0 435600000 2)) =
     [(0, 2), (2, 4), (4, 5)] \<and>
   snd (searchByDateChunks 4 quietServer ''org:CircuitVerse+is:issue'' 0 435600000 2) =
     Returned [pr1, pr1, pr1]"
  by code_simp


section \<open>Bots and other excluded actors\<close>

lemma excludedActor_isBotUser: "excludedActor u \<Longrightarrow> isBotUser u"
  by (auto simp: excludedActor_def isBotUser_def truthy_def endsWith_def
      split: option.splits)

lemma foldItem_excluded: "excludedActor (it_user it) \<Longrightarrow> foldItem ty when pts m it = m"
  by (simp add: foldItem_def excludedActor_isBotUser)

lemma foldl_keepHumans:
  "foldl (foldItem ty when pts) m (keepHumans its) = foldl (foldItem ty when pts) m its"
  by (induction its arbitrary: m) (simp_all add: keepHumans_def foldItem_excluded)

lemma aggregate_keepHumans:
  "aggregate (keepHumans prs) (keepHumans merged) (keepHumans issues) =
   aggregate prs merged issues"
  by (simp add: aggregate_def foldl_keepHumans)

text \<open>
  C5, as the code has it. An event whose actor has a non-empty account kind
  other than \<open>User\<close>, a login ending in \<open>[bot]\<close>, or no login is skipped: the year
  document and every derived document are what they would be had these events
  never been fetched. The aggregation has no failing branch, so the skipping
  raises nothing.
\<close>

theorem excluded_events_leave_no_trace:
  "yearEntries prs merged issues =
     yearEntries (keepHumans prs) (keepHumans merged) (keepHumans issues) \<and>
   derivePeriod parse cutoff (yearEntries prs merged issues) =
     derivePeriod parse cutoff
       (yearEntries (keepHumans prs) (keepHumans merged) (keepHumans issues)) \<and>
   (\<forall>it \<in> set (prs @ merged @ issues). excludedActor (it_user it) \<longrightarrow> isBotUser (it_user it))"
  by (simp add: yearEntries_def aggregate_keepHumans excludedActor_isBotUser)

lemma sample_with_bots:
  "keepHumans [pr1, issue2] = [pr1] \<and> keepHumans [issueNoLogin, issue4] = [issue4] \<and>
   map (\<lambda>e. (username e, total_points e)) (yearEntries [pr1] [pr1] [issue4]) =
     [(''alice'', 7), (''bob'', 1)]"
  by code_simp

theorem excluded_events_leave_no_trace_witness:
  "excludedActor (it_user issue2) \<and> excludedActor (it_user issueNoLogin) \<and>
   map (\<lambda>e. (username e, total_points e))
     (yearEntries [pr1, issue2] [pr1] [issueNoLogin, issue4]) = [(''alice'', 7), (''bob'', 1)]"
proof -
  have "excludedActor (it_user issue2)" "excludedActor (it_user issueNoLogin)"
    by (simp_all add: excludedActor_def issue2_def issueNoLogin_def botUser_def)
  moreover have "keepHumans [pr1] = [pr1]"
    by code_simp
  ultimately show ?thesis
    using excluded_events_leave_no_trace [of "[pr1, issue2]" "[pr1]" "[issueNoLogin, issue4]"]
      sample_with_bots
    by simp
qed

text \<open>C5 as the specification words it fails for an account kind that is the empty
  string: it is a kind other than \<open>User\<close>, yet the test \<open>user.type && ...\<close> lets
  the actor pass, and the pull request scores.\<close>

theorem blank_kind_counterexample:
  "claimedNonHuman (it_user prBlankKind) \<and>
   map username (yearEntries [prBlankKind] [] []) = [''alice''] \<and>
   map total_points (yearEntries [prBlankKind] [] []) = [2] \<and>
   map raw_activities (yearEntries [prBlankKind] [] []) =
     [[\<lparr>a_type = PR_opened, occured_at = ''2025-01-10T10:00:00Z'', a_title = None,
        a_link = None, a_points = 2\<rparr>]]"
  by code_simp

section \<open>Rebuilding a period from the activity log\<close>

lemma map_of_bump:
  "map_of (bump k p bd) k' =
     (if k' = k then
        Some (case map_of bd k of
                None \<Rightarrow> \<lparr>count = 1, points = p\<rparr>
              | Some b \<Rightarrow> b\<lparr>count := count b + 1, points := points b + p\<rparr>)
      else map_of bd k')"
  by (induction bd) auto

lemma keys_bump:
  "map fst (bump k p bd) = (if k \<in> fst ` set bd then map fst bd else map fst bd @ [k])"
  by (induction bd) (fastforce simp: image_iff)+

lemma distinct_bump: "distinct (map fst bd) \<Longrightarrow> distinct (map fst (bump k p bd))"
  by (simp add: keys_bump)

lemma map_of_bumpDaily:
  "map_of (bumpDaily day p dl) day' =
     (if day' = day then
        Some (case map_of dl day of
                None \<Rightarrow> \<lparr>d_date = day, d_count = 1, d_points = p\<rparr>
              | Some d \<Rightarrow> d\<lparr>d_count := d_count d + 1, d_points := d_points d + p\<rparr>)
      else map_of dl day')"
  by (induction dl) auto

lemma keys_bumpDaily:
  "map fst (bumpDaily day p dl) =
     (if day \<in> fst ` set dl then map fst dl else map fst dl @ [day])"
  by (induction dl) (fastforce simp: image_iff)+

lemma distinct_bumpDaily: "distinct (map fst dl) \<Longrightarrow> distinct (map fst (bumpDaily day p dl))"
  by (simp add: keys_bumpDaily)

lemma bucketOf_snoc:
  "bucketOf key pts k (xs @ [a]) =
     (if key a = k then
        Some (case bucketOf key pts k xs of
                None \<Rightarrow> \<lparr>count = 1, points = pts a\<rparr>
              | Some b \<Rightarrow> b\<lparr>count := count b + 1, points := points b + pts a\<rparr>)
      else bucketOf key pts k xs)"
  by (simp add: bucketOf_def Let_def)

lemma dailyOf_snoc:
  "dailyOf key pts day (xs @ [a]) =
     (if key a = day then
        Some (case dailyOf key pts day xs of
                None \<Rightarrow> \<lparr>d_date = day, d_count = 1, d_points = pts a\<rparr>
              | Some d \<Rightarrow> d\<lparr>d_count := d_count d + 1, d_points := d_points d + pts a\<rparr>)
      else dailyOf key pts day xs)"
  by (simp add: dailyOf_def Let_def)

lemma bucketOf_map: "bucketOf key pts k (map f xs) = bucketOf (key \<circ> f) (pts \<circ> f) k xs"
  by (simp add: bucketOf_def Let_def filter_map comp_def)

lemma dailyOf_map: "dailyOf key pts day (map f xs) = dailyOf (key \<circ> f) (pts \<circ> f) day xs"
  by (simp add: dailyOf_def Let_def filter_map comp_def)

text \<open>The loop of \<open>derivePeriod\<close>, from any state that agrees with the activities
  folded so far.\<close>

lemma foldl_rebuildStep_buckets:
  assumes "foldl rebuildStep (t, bd, dl) acts = (t', bd', dl')"
    and "\<forall>k. map_of bd k = bucketOf a_type a_points k seen"
    and "\<forall>day. map_of dl day = dailyOf rawDay a_points day seen"
    and "distinct (map fst bd)" and "distinct (map fst dl)"
  shows "(\<forall>k. map_of bd' k = bucketOf a_type a_points k (seen @ acts)) \<and>
         (\<forall>day. map_of dl' day = dailyOf rawDay a_points day (seen @ acts)) \<and>
         distinct (map fst bd') \<and> distinct (map fst dl')"
  using assms
proof (induction acts arbitrary: t bd dl seen)
  case Nil
  then show ?case by simp
next
  case (Cons a acts)
  let ?bd = "bump (a_type a) (a_points a) bd"
  let ?dl = "bumpDaily (dayOf (occured_at a)) (a_points a) dl"
  from Cons.prems(1) have run: "foldl rebuildStep (t + a_points a, ?bd, ?dl) acts = (t', bd', dl')"
    by (simp add: rebuildStep_triple)
  have b: "\<forall>k. map_of ?bd k = bucketOf a_type a_points k (seen @ [a])"
    using Cons.prems(2) by (simp add: map_of_bump bucketOf_snoc)
  have d: "\<forall>day. map_of ?dl day = dailyOf rawDay a_points day (seen @ [a])"
    using Cons.prems(3) by (simp add: map_of_bumpDaily dailyOf_snoc rawDay_def [symmetric])
  from Cons.IH [OF run b d distinct_bump [OF Cons.prems(4)] distinct_bumpDaily [OF Cons.prems(5)]]
  show ?case by simp
qed

lemma rebuild_buckets:
  assumes "rebuild acts = (t, bd, dl)"
  shows "(\<forall>k. map_of bd k = bucketOf a_type a_points k acts) \<and>
         (\<forall>day. map_of dl day = dailyOf rawDay a_points day acts) \<and>
         distinct (map fst bd) \<and> distinct (map fst dl)"
  using foldl_rebuildStep_buckets [of 0 "[]" "[]" acts t bd dl "[]"] assms
  by (simp add: rebuild_def bucketOf_def dailyOf_def)

text \<open>The values of a keyed object whose every value carries its key.\<close>

lemma values_of_keyed:
  assumes "distinct (map fst dl)" and "\<forall>day. map_of dl day = dailyOf key pts day xs"
  shows "distinct (map d_date (map snd dl)) \<and>
         (\<forall>x. x \<in> set (map snd dl) \<longleftrightarrow> dailyOf key pts (d_date x) xs = Some x)"
proof -
  have date: "d_date v = k" if "(k, v) \<in> set dl" for k v
  proof -
    from that assms(1) have "map_of dl k = Some v" by simp
    with assms(2) have "dailyOf key pts k xs = Some v" by simp
    then show ?thesis by (auto simp: dailyOf_def Let_def split: if_splits)
  qed
  then have eq: "map d_date (map snd dl) = map fst dl" by auto
  have "distinct (map d_date (map snd dl))"
    unfolding eq by (rule assms(1))
  moreover have "x \<in> set (map snd dl) \<longleftrightarrow> dailyOf key pts (d_date x) xs = Some x" for x
  proof
    assume "x \<in> set (map snd dl)"
    then obtain k where kx: "(k, x) \<in> set dl" by auto
    with assms(1) have "map_of dl k = Some x" by simp
    with assms(2) date [OF kx] show "dailyOf key pts (d_date x) xs = Some x" by simp
  next
    assume "dailyOf key pts (d_date x) xs = Some x"
    with assms(2) have "map_of dl (d_date x) = Some x" by simp
    then have "(d_date x, x) \<in> set dl" by (rule map_of_SomeD)
    then show "x \<in> set (map snd dl)" by force
  qed
  ultimately show ?thesis by blast
qed

subsection \<open>One entry per user name\<close>

lemma keys_modify: "map fst (modify l f m) = map fst m"
  by (induction m) auto

lemma wellKeyed_modify:
  assumes "wellKeyed m" and "\<And>e. username (f e) = username e"
  shows "wellKeyed (modify l f m)"
  using assms by (induction m) (auto simp: wellKeyed_def keys_modify)

lemma wellKeyed_ensureUser: "wellKeyed m \<Longrightarrow> wellKeyed (ensureUser m l u)"
  by (auto simp: wellKeyed_def ensureUser_def newEntry_def)

lemma username_addActivity: "username (addActivity e ty date pts title link) = username e"
  by (simp add: addActivity_def Let_def)

lemma wellKeyed_foldItem: "wellKeyed m \<Longrightarrow> wellKeyed (foldItem ty when pts m it)"
  by (simp add: foldItem_def Let_def wellKeyed_modify wellKeyed_ensureUser username_addActivity)

lemma wellKeyed_foldl: "wellKeyed m \<Longrightarrow> wellKeyed (foldl (foldItem ty when pts) m its)"
  by (induction its arbitrary: m) (simp_all add: wellKeyed_foldItem)

lemma wellKeyed_aggregate: "wellKeyed (aggregate prs merged issues)"
  unfolding aggregate_def
  by (intro wellKeyed_foldl) (simp add: wellKeyed_def)

lemma wellKeyed_usernames: "wellKeyed m \<Longrightarrow> distinct (map username (map snd m))"
proof -
  assume w: "wellKeyed m"
  then have "map username (map snd m) = map fst m"
    by (induction m) (auto simp: wellKeyed_def)
  with w show ?thesis by (simp only: wellKeyed_def)
qed

lemma distinct_yearEntries: "distinct (map username (yearEntries prs merged issues))"
proof -
  let ?xs = "map snd (aggregate prs merged issues)"
  have d: "distinct (map username ?xs)"
    using wellKeyed_aggregate by (rule wellKeyed_usernames)
  then have "distinct (map username (filter (\<lambda>u. total_points u > 0) ?xs))"
    by (rule distinct_map_filter)
  then have "distinct (filter (\<lambda>u. total_points u > 0) ?xs) \<and>
      inj_on username (set (filter (\<lambda>u. total_points u > 0) ?xs))"
    by (simp only: distinct_map)
  then show ?thesis
    unfolding yearEntries_def by (simp only: distinct_map distinct_sort set_sort)
qed

subsection \<open>What a derived entry holds\<close>

lemma deriveEntry_None:
  "deriveEntry parse cutoff e = None \<longleftrightarrow> filter (inWindow parse cutoff) (raw_activities e) = []"
  by (simp add: deriveEntry_def Let_def split: prod.splits)

lemma type_toPeriodActivity: "pa_type \<circ> toPeriodActivity e = a_type"
  and points_toPeriodActivity: "pa_points \<circ> toPeriodActivity e = a_points"
  and day_toPeriodActivity: "(\<lambda>a. dayOf (pa_occured_at a)) \<circ> toPeriodActivity e = rawDay"
  by (simp_all add: fun_eq_iff toPeriodActivity_def rawDay_def)

lemma deriveEntry_Some:
  assumes "deriveEntry parse cutoff e = Some d"
  shows "p_username d = username e"
    and "activities d = map (toPeriodActivity e) (filter (inWindow parse cutoff) (raw_activities e))"
    and "activities d \<noteq> []"
    and "\<forall>k. map_of (p_activity_breakdown d) k = periodBucket k (activities d)"
    and "distinct (map fst (p_activity_breakdown d))"
    and "distinct (map d_date (p_daily_activity d))"
    and "\<forall>x. x \<in> set (p_daily_activity d) \<longleftrightarrow> periodDay (d_date x) (activities d) = Some x"
proof -
  let ?acts = "filter (inWindow parse cutoff) (raw_activities e)"
  obtain t bd dl where rb: "rebuild ?acts = (t, bd, dl)"
    by (cases "rebuild ?acts")
  from assms have ne: "?acts \<noteq> []"
    by (auto simp: deriveEntry_def Let_def split: if_splits)
  with assms rb have d: "d = \<lparr>p_username = username e, p_name = name e,
      p_avatar_url = avatar_url e, p_role = role e, p_total_points = t,
      p_activity_breakdown = bd, p_daily_activity = map snd dl,
      activities = map (toPeriodActivity e) ?acts\<rparr>"
    by (simp add: deriveEntry_def Let_def)
  note rbk = rebuild_buckets [OF rb]
  from d show "p_username d = username e" by simp
  from d show acts: "activities d = map (toPeriodActivity e) ?acts" by simp
  from d ne show "activities d \<noteq> []" by simp
  from rbk d show "\<forall>k. map_of (p_activity_breakdown d) k = periodBucket k (activities d)"
    by (simp add: periodBucket_def bucketOf_map type_toPeriodActivity points_toPeriodActivity)
  from rbk d show "distinct (map fst (p_activity_breakdown d))" by simp
  have day: "\<forall>day. map_of dl day = periodDay day (activities d)"
    using rbk d
    by (simp add: periodDay_def dailyOf_map day_toPeriodActivity points_toPeriodActivity)
  have dd: "distinct (map fst dl)" using rbk by simp
  from values_of_keyed [OF dd day [unfolded periodDay_def]] d
  show "distinct (map d_date (p_daily_activity d))"
    and "\<forall>x. x \<in> set (p_daily_activity d) \<longleftrightarrow> periodDay (d_date x) (activities d) = Some x"
    by (simp_all add: periodDay_def)
qed

lemma deriveEntry_in_window:
  assumes "deriveEntry parse cutoff e = Some d" and "a \<in> set (activities d)"
  shows "\<exists>t. parse (pa_occured_at a) = Some t \<and> cutoff \<le> t"
proof -
  from assms obtain r where "r \<in> set (raw_activities e)" "inWindow parse cutoff r"
    "a = toPeriodActivity e r"
    by (auto simp: deriveEntry_Some(2))
  then show ?thesis
    by (auto simp: inWindow_def toPeriodActivity_def split: option.splits)
qed

lemma toPeriodActivity_ignores_aggregates:
  "toPeriodActivity (e\<lparr>total_points := T, activity_breakdown := B, daily_activity := D\<rparr>) =
   toPeriodActivity e"
  by (simp add: fun_eq_iff toPeriodActivity_def)

lemma deriveEntry_ignores_aggregates:
  "deriveEntry parse cutoff
     (e\<lparr>total_points := T, activity_breakdown := B, daily_activity := D\<rparr>) =
   deriveEntry parse cutoff e"
  by (simp add: deriveEntry_def toPeriodActivity_ignores_aggregates Let_def)

lemma derivePeriod_ignores_aggregates:
  "derivePeriod parse cutoff
     (map (\<lambda>e. e\<lparr>total_points := T e, activity_breakdown := B e, daily_activity := D e\<rparr>) entries) =
   derivePeriod parse cutoff entries"
  by (simp add: derivePeriod_def List.map_filter_def filter_map comp_def
      deriveEntry_ignores_aggregates)

lemma derivePeriod_sorted:
  "sorted_wrt (\<lambda>a b. p_total_points b \<le> p_total_points a) (derivePeriod parse cutoff entries)"
proof -
  have "sorted (map (\<lambda>e. - p_total_points e) (derivePeriod parse cutoff entries))"
    unfolding derivePeriod_def by (rule sorted_sort_key)
  then show ?thesis by (simp add: sorted_map)
qed

lemma derivePeriod_absent:
  assumes "distinct (map username entries)" and "e \<in> set entries"
    and "filter (inWindow parse cutoff) (raw_activities e) = []"
  shows "username e \<notin> p_username ` set (derivePeriod parse cutoff entries)"
proof
  assume "username e \<in> p_username ` set (derivePeriod parse cutoff entries)"
  then obtain d e' where d: "e' \<in> set entries" "deriveEntry parse cutoff e' = Some d"
    "p_username d = username e"
    by (auto simp: set_derivePeriod)
  then have "username e' = username e" by (simp add: deriveEntry_Some(1))
  with assms(1,2) d(1) have "e' = e"
    by (meson distinct_map inj_onD)
  with d(2) assms(3) show False by (simp add: deriveEntry_None [symmetric])
qed

lemma derivePeriod_present:
  assumes "e \<in> set entries" and "filter (inWindow parse cutoff) (raw_activities e) \<noteq> []"
  shows "username e \<in> p_username ` set (derivePeriod parse cutoff entries)"
proof -
  from assms(2) obtain d where d: "deriveEntry parse cutoff e = Some d"
    using deriveEntry_None [of parse cutoff e] by (cases "deriveEntry parse cutoff e") auto
  with assms(1) have "d \<in> set (derivePeriod parse cutoff entries)"
    by (auto simp: set_derivePeriod)
  moreover from d have "p_username d = username e" by (rule deriveEntry_Some(1))
  ultimately show ?thesis by force
qed

text \<open>
  C3. In the document derived from the year document with cutoff \<open>c\<close>, every
  entry has activities, and each of them occurred at or after \<open>c\<close>; a user whose
  log has no such activity has no entry, and every other user has one. The
  totals of an entry count its filtered activities alone: the total is the sum
  of their points, the bucket of a kind and the element of a day hold the
  number and the points of the activities of that kind and of that day, once
  each; the aggregates of the year document are not read. The entries come
  highest total first.
\<close>

theorem derived_period_rebuilt:
  "(\<forall>d \<in> set (derivePeriod parse c (yearEntries prs merged issues)).
      activities d \<noteq> [] \<and>
      (\<forall>a \<in> set (activities d). \<exists>t. parse (pa_occured_at a) = Some t \<and> c \<le> t) \<and>
      p_total_points d = periodPoints (activities d) \<and>
      (\<forall>k. map_of (p_activity_breakdown d) k = periodBucket k (activities d)) \<and>
      distinct (map fst (p_activity_breakdown d)) \<and>
      (\<forall>x. x \<in> set (p_daily_activity d) \<longleftrightarrow> periodDay (d_date x) (activities d) = Some x) \<and>
      distinct (map d_date (p_daily_activity d)) \<and>
      (\<exists>e \<in> set (yearEntries prs merged issues).
         p_username d = username e \<and>
         activities d =
           map (toPeriodActivity e) (filter (inWindow parse c) (raw_activities e)))) \<and>
   (\<forall>e \<in> set (yearEntries prs merged issues).
      username e \<in> p_username ` set (derivePeriod parse c (yearEntries prs merged issues)) \<longleftrightarrow>
      filter (inWindow parse c) (raw_activities e) \<noteq> []) \<and>
   derivePeriod parse c
     (map (\<lambda>e. e\<lparr>total_points := T e, activity_breakdown := B e, daily_activity := D e\<rparr>)
        (yearEntries prs merged issues)) =
     derivePeriod parse c (yearEntries prs merged issues) \<and>
   sorted_wrt (\<lambda>a b. p_total_points b \<le> p_total_points a)
     (derivePeriod parse c (yearEntries prs merged issues))"
proof -
  let ?ys = "yearEntries prs merged issues"
  let ?ds = "derivePeriod parse c ?ys"
  have entry: "activities d \<noteq> [] \<and>
      (\<forall>a \<in> set (activities d). \<exists>t. parse (pa_occured_at a) = Some t \<and> c \<le> t) \<and>
      p_total_points d = periodPoints (activities d) \<and>
      (\<forall>k. map_of (p_activity_breakdown d) k = periodBucket k (activities d)) \<and>
      distinct (map fst (p_activity_breakdown d)) \<and>
      (\<forall>x. x \<in> set (p_daily_activity d) \<longleftrightarrow> periodDay (d_date x) (activities d) = Some x) \<and>
      distinct (map d_date (p_daily_activity d)) \<and>
      (\<exists>e \<in> set ?ys.
         p_username d = username e \<and>
         activities d =
           map (toPeriodActivity e) (filter (inWindow parse c) (raw_activities e)))"
    if "d \<in> set ?ds" for d
  proof -
    from that obtain e where e: "e \<in> set ?ys" and d: "deriveEntry parse c e = Some d"
      by (auto simp: set_derivePeriod)
    note facts = deriveEntry_Some [OF d]
    have "\<forall>a \<in> set (activities d). \<exists>t. parse (pa_occured_at a) = Some t \<and> c \<le> t"
      using deriveEntry_in_window [OF d] by blast
    moreover have "p_total_points d = periodPoints (activities d)"
      using deriveEntry_points [OF d] by blast
    moreover have "\<exists>e \<in> set ?ys. p_username d = username e \<and>
        activities d = map (toPeriodActivity e) (filter (inWindow parse c) (raw_activities e))"
      using e facts(1,2) by blast
    ultimately show ?thesis
      using facts(3,4,5,6,7) by (intro conjI)
  qed
  have user: "username e \<in> p_username ` set ?ds \<longleftrightarrow>
      filter (inWindow parse c) (raw_activities e) \<noteq> []"
    if "e \<in> set ?ys" for e
    using that derivePeriod_absent [OF distinct_yearEntries, of e prs merged issues parse c]
      derivePeriod_present [of e ?ys parse c]
    by blast
  have E: "\<forall>d \<in> set ?ds. activities d \<noteq> [] \<and>
      (\<forall>a \<in> set (activities d). \<exists>t. parse (pa_occured_at a) = Some t \<and> c \<le> t) \<and>
      p_total_points d = periodPoints (activities d) \<and>
      (\<forall>k. map_of (p_activity_breakdown d) k = periodBucket k (activities d)) \<and>
      distinct (map fst (p_activity_breakdown d)) \<and>
      (\<forall>x. x \<in> set (p_daily_activity d) \<longleftrightarrow> periodDay (d_date x) (activities d) = Some x) \<and>
      distinct (map d_date (p_daily_activity d)) \<and>
      (\<exists>e \<in> set ?ys.
         p_username d = username e \<and>
         activities d =
           map (toPeriodActivity e) (filter (inWindow parse c) (raw_activities e)))"
    using entry by (rule ballI)
  have U: "\<forall>e \<in> set ?ys. username e \<in> p_username ` set ?ds \<longleftrightarrow>
      filter (inWindow parse c) (raw_activities e) \<noteq> []"
    using user by (rule ballI)
  from E U
    derivePeriod_ignores_aggregates [where parse = parse and cutoff = c and T = T and B = B
      and D = D and entries = ?ys]
    derivePeriod_sorted [of parse c ?ys]
  show ?thesis by (intro conjI)
qed

lemma sample_week:
  "derivePeriod sampleParse 1736600000000 (yearEntries [pr1, pr3] [pr1] [issue4]) \<noteq> [] \<and>
   p_total_points
     (hd (derivePeriod sampleParse 1736600000000 (yearEntries [pr1, pr3] [pr1] [issue4]))) = 5 \<and>
   p_activity_breakdown
     (hd (derivePeriod sampleParse 1736600000000 (yearEntries [pr1, pr3] [pr1] [issue4]))) =
     [(PR_merged, \<lparr>count = 1, points = 5\<rparr>)] \<and>
   length (yearEntries [pr1, pr3] [pr1] [issue4]) = 2 \<and>
   username (yearEntries [pr1, pr3] [pr1] [issue4] ! 1) = ''bob'' \<and>
   filter (inWindow sampleParse 1736600000000)
     (raw_activities (yearEntries [pr1, pr3] [pr1] [issue4] ! 1)) = []"
  by code_simp

theorem derived_period_rebuilt_witness:
  "derivePeriod sampleParse 1736600000000 (yearEntries [pr1, pr3] [pr1] [issue4]) \<noteq> [] \<and>
   periodPoints (activities
     (hd (derivePeriod sampleParse 1736600000000 (yearEntries [pr1, pr3] [pr1] [issue4])))) = 5 \<and>
   periodBucket PR_merged (activities
     (hd (derivePeriod sampleParse 1736600000000 (yearEntries [pr1, pr3] [pr1] [issue4])))) =
     Some \<lparr>count = 1, points = 5\<rparr> \<and>
   periodBucket PR_opened (activities
     (hd (derivePeriod sampleParse 1736600000000 (yearEntries [pr1, pr3] [pr1] [issue4])))) =
     None \<and>
   ''bob'' \<notin> p_username `
     set (derivePeriod sampleParse 1736600000000 (yearEntries [pr1, pr3] [pr1] [issue4]))"
proof -
  let ?ys = "yearEntries [pr1, pr3] [pr1] [issue4]"
  let ?ds = "derivePeriod sampleParse 1736600000000 ?ys"
  from sample_week have ds: "?ds \<noteq> []"
    and tot: "p_total_points (hd ?ds) = 5"
    and bd: "p_activity_breakdown (hd ?ds) = [(PR_merged, \<lparr>count = 1, points = 5\<rparr>)]"
    and len: "length ?ys = 2" and bob: "username (?ys ! 1) = ''bob''"
    and none: "filter (inWindow sampleParse 1736600000000) (raw_activities (?ys ! 1)) = []"
    by blast+
  from ds have hd: "hd ?ds \<in> set ?ds" by simp
  from len have mem: "?ys ! 1 \<in> set ?ys" by simp
  note th = derived_period_rebuilt [of sampleParse 1736600000000 "[pr1, pr3]" "[pr1]" "[issue4]"]
  from th hd have "p_total_points (hd ?ds) = periodPoints (activities (hd ?ds))"
    and b: "\<forall>k. map_of (p_activity_breakdown (hd ?ds)) k = periodBucket k (activities (hd ?ds))"
    by blast+
  with tot have 1: "periodPoints (activities (hd ?ds)) = 5" by simp
  from b bd have 2: "periodBucket PR_merged (activities (hd ?ds)) = Some \<lparr>count = 1, points = 5\<rparr>"
    and 3: "periodBucket PR_opened (activities (hd ?ds)) = None"
    by (auto dest: spec [where x = PR_merged] spec [where x = PR_opened])
  from th mem have "username (?ys ! 1) \<in> p_username ` set ?ds \<longleftrightarrow>
      filter (inWindow sampleParse 1736600000000) (raw_activities (?ys ! 1)) \<noteq> []"
    by blast
  with bob none have 4: "''bob'' \<notin> p_username ` set ?ds" by simp
  from ds 1 2 3 4 show ?thesis by blast
qed

section \<open>The daily elements of the year generator\<close>

lemma find_bumpDay:
  "find (\<lambda>d. d_date d = day') (bumpDay day p dl) =
     (if day' = day then
        Some (case find (\<lambda>d. d_date d = day) dl of
                None \<Rightarrow> \<lparr>d_date = day, d_count = 1, d_points = p\<rparr>
              | Some d \<Rightarrow> d\<lparr>d_count := d_count d + 1, d_points := d_points d + p\<rparr>)
      else find (\<lambda>d. d_date d = day') dl)"
  by (induction dl) auto

lemma dates_bumpDay:
  "map d_date (bumpDay day p dl) =
     (if day \<in> d_date ` set dl then map d_date dl else map d_date dl @ [day])"
  by (induction dl) (fastforce simp: image_iff)+

lemma tallies_newEntry: "tallies (newEntry l u)"
  by (simp add: tallies_def newEntry_def dailyOf_def bucketOf_def)

lemma tallies_addActivity:
  assumes "tallies e"
  shows "tallies (addActivity e ty date pts title link)"
proof -
  let ?a = "\<lparr>a_type = ty, occured_at = date, a_title = sanitizeTitle title, a_link = link,
    a_points = pts\<rparr>"
  have day: "rawDay ?a = dayOf date" by (simp add: rawDay_def)
  from assms have "distinct (map d_date (bumpDay (dayOf date) pts (daily_activity e)))"
    by (simp add: tallies_def dates_bumpDay)
  moreover from assms
  have "\<forall>day. find (\<lambda>d. d_date d = day) (bumpDay (dayOf date) pts (daily_activity e)) =
      dailyOf rawDay a_points day (raw_activities e @ [?a])"
    by (simp add: tallies_def find_bumpDay dailyOf_snoc day cong: option.case_cong)
  moreover from assms have "distinct (map fst (bump ty pts (activity_breakdown e)))"
    by (simp add: tallies_def distinct_bump)
  moreover from assms
  have "\<forall>k. map_of (bump ty pts (activity_breakdown e)) k =
      bucketOf a_type a_points k (raw_activities e @ [?a])"
    by (simp add: tallies_def map_of_bump bucketOf_snoc cong: option.case_cong)
  ultimately show ?thesis
    by (simp add: tallies_def addActivity_def Let_def)
qed

text \<open>
  The year generator does what C4 asks: in every entry of the year document
  the \<open>daily_activity\<close> elements have distinct dates, and the element of a day
  holds the number and the points of the activities of that day.
\<close>

lemma yearEntries_tally: "\<forall>e \<in> set (yearEntries prs merged issues). tallies e"
proof -
  have "\<forall>e \<in> snd ` set (aggregate prs merged issues). tallies e"
    by (rule kept_aggregate) (rule tallies_newEntry tallies_addActivity)+
  with set_yearEntries show ?thesis by blast
qed

lemma sample_same_day:
  "map (\<lambda>e. map (\<lambda>d. (d_date d, d_count d, d_points d)) (daily_activity e))
     (yearEntries [pr1, pr3] [] []) = [[(''2025-01-10'', 2, 4)]]"
  by code_simp





end
